theory Spec2Isabelle
  imports
    Main
    "HOL-Library.Finite_Map"
    "HOL-Library.Sublist"
    "HOL-Library.Char_ord"
    "HOL-Library.List_Lexorder"
begin

section \<open>The Intrinio real-time client: data model\<close>

text \<open>
  The repository holds two revisions of the client, \<^verbatim>\<open>src/unnamed/part_001\<close> and
  \<^verbatim>\<open>src/client.go\<close>. The provider adapter (\<^verbatim>\<open>makeAuthURL\<close> to \<^verbatim>\<open>parseTopic\<close>),
  \<^verbatim>\<open>Join\<close>, \<^verbatim>\<open>Leave\<close>, \<^verbatim>\<open>LeaveAll\<close> and \<^verbatim>\<open>refreshChannels\<close> are the same text in both
  (up to the spelling \<^verbatim>\<open>connected\<close>/\<^verbatim>\<open>Connected\<close> and three debugging prints in
  \<^verbatim>\<open>Leave\<close>); the struct, \<^verbatim>\<open>New\<close> and \<^verbatim>\<open>Disconnect\<close> differ and are embedded once per
  revision. Debug printing is left out of the model.

  The calls of the control plane (\<^verbatim>\<open>New\<close>, \<^verbatim>\<open>Join\<close>, \<^verbatim>\<open>Leave\<close>, \<^verbatim>\<open>LeaveAll\<close>, \<^verbatim>\<open>Disconnect\<close>) are
  functions from the client to a failure or to the effects of the call and the client
  after it. Of the three goroutines of a connection only what these calls wait for is
  modelled: the sender goroutine takes every message sent on the open queue, and stops
  when its stop channel is closed. \<^verbatim>\<open>Connect\<close>, the receiver and the heartbeat are not
  modelled.
\<close>

subsection \<open>Values sent on the wire\<close>

text \<open>
  A Go \<^verbatim>\<open>map[string]interface{}\<close> literal, with its keys in the order the source writes
  them. \<^verbatim>\<open>nil\<close> is \<open>JNull\<close>.
\<close>

datatype json = JNull | JString string | JInt int | JObject "(string \<times> json) list"

type_synonym message = "(string \<times> json) list"

text \<open>
  How a call can fail to return: a Go panic with its text, or a channel operation that
  blocks for ever.
\<close>

datatype failure = Panic string | Blocked

text \<open>\<^verbatim>\<open>type provider string\<close> with its two constants.\<close>

type_synonym provider = string

definition IEX :: provider where
  "IEX = ''iex''"

definition QUODD :: provider where
  "QUODD = ''quodd''"

definition cQUODDRealtimeTokenURL :: string where
  "cQUODDRealtimeTokenURL = ''https://api.intrinio.com/token?type=QUODD''"

definition cQUODDWebsocketURL :: string where
  "cQUODDWebsocketURL = ''wss://www5.quodd.com/websocket/webStreamer/intrinio''"

definition cIEXRealtimeTokenURL :: string where
  "cIEXRealtimeTokenURL = ''https://realtime.intrinio.com/auth''"

definition cIEXWebsocketURL :: string where
  "cIEXWebsocketURL = ''wss://realtime.intrinio.com/socket/websocket''"

definition no_such_value :: failure where
  "no_such_value = Panic ''A value that does not exist was specified.''"

subsection \<open>The provider adapter\<close>

definition makeAuthURL :: "provider \<Rightarrow> failure + string" where
  "makeAuthURL p =
     (if p = IEX then Inr cIEXRealtimeTokenURL
      else if p = QUODD then Inr cQUODDRealtimeTokenURL
      else Inl no_such_value)"

text \<open>\<^verbatim>\<open>fmt.Sprintf\<close> with \<^verbatim>\<open>%s\<close> verbs only is concatenation.\<close>

definition makeSoketURL :: "provider \<Rightarrow> string \<Rightarrow> failure + string" where
  "makeSoketURL p tok =
     (if p = IEX then Inr (cIEXWebsocketURL @ ''?vsn=1.0.0&token='' @ tok)
      else if p = QUODD then Inr (cQUODDWebsocketURL @ ''/'' @ tok)
      else Inl no_such_value)"

definition parseTopic :: "string \<Rightarrow> string" where
  "parseTopic channel =
     (if channel = ''$lobby'' then ''iex:lobby''
      else if channel = ''$lobby_last_price'' then ''iex:lobby:last_price''
      else ''iex:securities:'' @ channel)"

definition makeJoinMessage :: "provider \<Rightarrow> string \<Rightarrow> failure + message" where
  "makeJoinMessage p channel =
     (if p = IEX then
        Inr [(''topic'', JString (parseTopic channel)),
             (''event'', JString ''phx_join''),
             (''payload'', JObject []),
             (''ref'', JNull)]
      else if p = QUODD then
        Inr [(''event'', JString ''subscribe''),
             (''data'', JObject [(''ticker'', JString channel),
                                 (''action'', JString ''subscribe'')])]
      else Inl no_such_value)"

definition makeLeaveMessage :: "provider \<Rightarrow> string \<Rightarrow> failure + message" where
  "makeLeaveMessage p channel =
     (if p = IEX then
        Inr [(''topic'', JString (parseTopic channel)),
             (''event'', JString ''phx_leave''),
             (''payload'', JObject []),
             (''ref'', JNull)]
      else if p = QUODD then
        Inr [(''event'', JString ''unsubscribe''),
             (''data'', JObject [(''ticker'', JString channel),
                                 (''action'', JString ''unsubscribe'')])]
      else Inl no_such_value)"

text \<open>The second argument is the value of \<^verbatim>\<open>time.Now().Unix()\<close> at the call.\<close>

definition makeHeartbeatMessage :: "provider \<Rightarrow> int \<Rightarrow> failure + message" where
  "makeHeartbeatMessage p now =
     (if p = IEX then
        Inr [(''topic'', JString ''phoenix''),
             (''event'', JString ''heartbeat''),
             (''payload'', JObject []),
             (''ref'', JNull)]
      else if p = QUODD then
        Inr [(''event'', JString ''heartbeat''),
             (''data'', JObject [(''action'', JString ''heartbeat''),
                                 (''ticker'', JInt now)])]
      else Inl no_such_value)"

subsection \<open>\<^verbatim>\<open>strings.TrimSpace\<close>\<close>

text \<open>
  \<^verbatim>\<open>strings.TrimSpace\<close> belongs to the Go standard library, not to the repository. It is
  modelled from its documentation: the result is the argument with all leading and
  trailing white space removed, as defined by Unicode. A Go string is a byte sequence
  read as UTF-8, so the white-space code points (those of \<^verbatim>\<open>unicode.IsSpace\<close>) appear here
  by their UTF-8 encodings: tab, line feed, vertical tab, form feed, carriage return,
  space, U+0085, U+00A0, U+1680, U+2000 to U+200A, U+2028, U+2029, U+202F, U+205F and
  U+3000.
\<close>

definition space_runes :: "string list" where
  "space_runes =
     [[CHR 0x09], [CHR 0x0A], [CHR 0x0B], [CHR 0x0C], [CHR 0x0D], [CHR 0x20],
      [CHR 0xC2, CHR 0x85], [CHR 0xC2, CHR 0xA0],
      [CHR 0xE1, CHR 0x9A, CHR 0x80],
      [CHR 0xE2, CHR 0x80, CHR 0x80], [CHR 0xE2, CHR 0x80, CHR 0x81],
      [CHR 0xE2, CHR 0x80, CHR 0x82], [CHR 0xE2, CHR 0x80, CHR 0x83],
      [CHR 0xE2, CHR 0x80, CHR 0x84], [CHR 0xE2, CHR 0x80, CHR 0x85],
      [CHR 0xE2, CHR 0x80, CHR 0x86], [CHR 0xE2, CHR 0x80, CHR 0x87],
      [CHR 0xE2, CHR 0x80, CHR 0x88], [CHR 0xE2, CHR 0x80, CHR 0x89],
      [CHR 0xE2, CHR 0x80, CHR 0x8A],
      [CHR 0xE2, CHR 0x80, CHR 0xA8], [CHR 0xE2, CHR 0x80, CHR 0xA9],
      [CHR 0xE2, CHR 0x80, CHR 0xAF],
      [CHR 0xE2, CHR 0x81, CHR 0x9F],
      [CHR 0xE3, CHR 0x80, CHR 0x80]]"

text \<open>
  \<open>strip ws s\<close> removes from the front of \<open>s\<close>, repeatedly, whichever member of \<open>ws\<close>
  it starts with. The empty word strips nothing.
\<close>

definition lead :: "string list \<Rightarrow> string \<Rightarrow> nat" where
  "lead ws s = (case filter (\<lambda>w. w \<noteq> [] \<and> prefix w s) ws of [] \<Rightarrow> 0 | w # _ \<Rightarrow> length w)"

function strip :: "string list \<Rightarrow> string \<Rightarrow> string" where
  "strip ws s = (if lead ws s = 0 then s else strip ws (drop (lead ws s) s))"
  by pat_completeness auto
termination
proof (relation "measure (\<lambda>(ws, s). length s)")
  show "wf (measure (\<lambda>(ws, s). length s))" by simp
next
  fix ws :: "string list" and s :: string
  assume nz: "lead ws s \<noteq> 0"
  then have "filter (\<lambda>w. w \<noteq> [] \<and> prefix w s) ws \<noteq> []"
    by (auto simp: lead_def)
  then obtain w where "w \<in> set (filter (\<lambda>w. w \<noteq> [] \<and> prefix w s) ws)"
    by (cases "filter (\<lambda>w. w \<noteq> [] \<and> prefix w s) ws") auto
  then have "s \<noteq> []" by auto
  with nz show "((ws, drop (lead ws s) s), (ws, s)) \<in> measure (\<lambda>(ws, s). length s)"
    by simp
qed

declare strip.simps [simp del]

definition TrimLeft :: "string \<Rightarrow> string" where
  "TrimLeft s = strip space_runes s"

definition TrimRight :: "string \<Rightarrow> string" where
  "TrimRight s = rev (strip (map rev space_runes) (rev s))"

definition TrimSpace :: "string \<Rightarrow> string" where
  "TrimSpace s = TrimRight (TrimLeft s)"

text \<open>A string with no white space at either end.\<close>

definition trimmed :: "string \<Rightarrow> bool" where
  "trimmed s \<longleftrightarrow> \<not> list_ex (\<lambda>w. prefix w s) space_runes \<and> \<not> list_ex (\<lambda>w. suffix w s) space_runes"

subsection \<open>The client of \<^verbatim>\<open>src/unnamed/part_001\<close>\<close>

text \<open>
  A Go channel is \<^verbatim>\<open>nil\<close>, open or closed. \<^verbatim>\<open>close\<close> panics on a \<^verbatim>\<open>nil\<close> and on a closed
  channel. All channels of the client carry no data that the model needs, except the
  outbound queue \<^verbatim>\<open>q\<close>, whose traffic the functions below return as the list of messages
  sent, in the order sent.
\<close>

datatype chan = ChanNil | ChanOpen | ChanClosed

definition chan_close :: "chan \<Rightarrow> failure + chan" where
  "chan_close c =
     (case c of
        ChanNil \<Rightarrow> Inl (Panic ''close of nil channel'')
      | ChanClosed \<Rightarrow> Inl (Panic ''close of closed channel'')
      | ChanOpen \<Rightarrow> Inr ChanClosed)"

text \<open>
  A send on the unbuffered \<^verbatim>\<open>q\<close>: on an open channel the sender goroutine of the
  connection takes the value; on a \<^verbatim>\<open>nil\<close> channel the send blocks for ever; on a closed
  one it panics. \<open>None\<close> is a completed send.
\<close>

definition chan_send :: "chan \<Rightarrow> failure option" where
  "chan_send c =
     (case c of
        ChanNil \<Rightarrow> Some Blocked
      | ChanClosed \<Rightarrow> Some (Panic ''send on closed channel'')
      | ChanOpen \<Rightarrow> None)"

text \<open>A dialled \<^verbatim>\<open>*websocket.Conn\<close>, and a registered callback, by identity.\<close>

datatype conn = Conn nat

datatype handler = Handler nat

type_synonym chanset = "(string, bool) fmap"

record Client =
  DebugMode :: bool
  username :: string
  password :: string
  provider :: provider
  token :: string
  ws :: "conn option"
  channels :: chanset
  joinedChannels :: chanset
  quoteHander :: "handler option"
  errorHandler :: "handler option"
  breakHartbeat :: chan
  breakSender :: chan
  sended :: chan
  q :: chan
  closing :: bool

definition New :: "string \<Rightarrow> string \<Rightarrow> provider \<Rightarrow> Client" where
  "New user pass prov =
     \<lparr> DebugMode = False, username = user, password = pass, provider = prov,
       token = [], ws = None, channels = fmempty, joinedChannels = fmempty,
       quoteHander = None, errorHandler = None,
       breakHartbeat = ChanNil, breakSender = ChanNil, sended = ChanNil, q = ChanNil,
       closing = False \<rparr>"

definition Connected :: "Client \<Rightarrow> bool" where
  "Connected cli \<longleftrightarrow> ws cli \<noteq> None"

subsection \<open>Iterating over a Go map\<close>

text \<open>
  Go leaves the order in which \<^verbatim>\<open>range\<close> visits the keys of a map unspecified, and it may
  differ from one loop to the next. The order is therefore an input of the model: a
  loop over the map \<open>m\<close> is given a list \<open>seed\<close> and visits the keys in that order when
  \<open>seed\<close> enumerates the keys of \<open>m\<close> once each; for any other \<open>seed\<close> it visits them in
  ascending order. Every order Go may choose is obtained from some \<open>seed\<close>, and every
  \<open>seed\<close> gives an order Go may choose.
\<close>

definition range_order :: "string list \<Rightarrow> chanset \<Rightarrow> string list" where
  "range_order seed m =
     (if distinct seed \<and> fset_of_list seed = fmdom m then seed
      else sorted_list_of_fset (fmdom m))"

text \<open>The three loops of \<^verbatim>\<open>refreshChannels\<close> take one seed each.\<close>

record seeds =
  seed_join :: "string list"
  seed_leave :: "string list"
  seed_copy :: "string list"

subsection \<open>Reconciliation\<close>

text \<open>
  The first loop of \<^verbatim>\<open>refreshChannels\<close>, over the keys \<open>ks\<close> of \<^verbatim>\<open>cli.channels\<close> in the
  order visited: a key missing from \<^verbatim>\<open>cli.joinedChannels\<close> has its join message built and
  sent on \<^verbatim>\<open>cli.q\<close>. The result is the list of messages sent, or the failure that ended
  the loop.
\<close>

fun join_loop :: "provider \<Rightarrow> chan \<Rightarrow> chanset \<Rightarrow> string list \<Rightarrow> failure + message list" where
  "join_loop p qc joined [] = Inr []"
| "join_loop p qc joined (k # ks) =
     (if fmlookup joined k = None then
        (case makeJoinMessage p k of
           Inl e \<Rightarrow> Inl e
         | Inr m \<Rightarrow>
             (case chan_send qc of
                Some e \<Rightarrow> Inl e
              | None \<Rightarrow>
                  (case join_loop p qc joined ks of
                     Inl e \<Rightarrow> Inl e
                   | Inr ms \<Rightarrow> Inr (m # ms))))
      else join_loop p qc joined ks)"

text \<open>The second loop, over the keys of \<^verbatim>\<open>cli.joinedChannels\<close>.\<close>

fun leave_loop :: "provider \<Rightarrow> chan \<Rightarrow> chanset \<Rightarrow> string list \<Rightarrow> failure + message list" where
  "leave_loop p qc desired [] = Inr []"
| "leave_loop p qc desired (k # ks) =
     (if fmlookup desired k = None then
        (case makeLeaveMessage p k of
           Inl e \<Rightarrow> Inl e
         | Inr m \<Rightarrow>
             (case chan_send qc of
                Some e \<Rightarrow> Inl e
              | None \<Rightarrow>
                  (case leave_loop p qc desired ks of
                     Inl e \<Rightarrow> Inl e
                   | Inr ms \<Rightarrow> Inr (m # ms))))
      else leave_loop p qc desired ks)"

text \<open>The third loop fills a fresh map with the keys of \<^verbatim>\<open>cli.channels\<close>.\<close>

definition copy_loop :: "string list \<Rightarrow> chanset" where
  "copy_loop ks = fold (\<lambda>k m. fmupd k True m) ks fmempty"

definition refreshChannels :: "seeds \<Rightarrow> Client \<Rightarrow> failure + (message list \<times> Client)" where
  "refreshChannels sd cli =
     (if Connected cli = False then Inr ([], cli)
      else
        (case join_loop (provider cli) (q cli) (joinedChannels cli)
                (range_order (seed_join sd) (channels cli)) of
           Inl e \<Rightarrow> Inl e
         | Inr js \<Rightarrow>
             (case leave_loop (provider cli) (q cli) (channels cli)
                     (range_order (seed_leave sd) (joinedChannels cli)) of
                Inl e \<Rightarrow> Inl e
              | Inr ls \<Rightarrow>
                  Inr (js @ ls,
                       cli\<lparr>joinedChannels :=
                             copy_loop (range_order (seed_copy sd) (channels cli))\<rparr>))))"

subsection \<open>Join, Leave, LeaveAll\<close>

definition join_channel :: "string \<Rightarrow> chanset \<Rightarrow> chanset" where
  "join_channel channel m =
     (let c = TrimSpace channel
      in if fmlookup m c = None then fmupd c True m else m)"

definition leave_channel :: "string \<Rightarrow> chanset \<Rightarrow> chanset" where
  "leave_channel channel m = fmdrop (TrimSpace channel) m"

definition Join :: "seeds \<Rightarrow> string list \<Rightarrow> Client \<Rightarrow> failure + (message list \<times> Client)" where
  "Join sd chs cli = refreshChannels sd (cli\<lparr>channels := fold join_channel chs (channels cli)\<rparr>)"

definition Leave :: "seeds \<Rightarrow> string list \<Rightarrow> Client \<Rightarrow> failure + (message list \<times> Client)" where
  "Leave sd chs cli = refreshChannels sd (cli\<lparr>channels := fold leave_channel chs (channels cli)\<rparr>)"

definition LeaveAll :: "seeds \<Rightarrow> Client \<Rightarrow> failure + (message list \<times> Client)" where
  "LeaveAll sd cli = refreshChannels sd (cli\<lparr>channels := fmempty\<rparr>)"

text \<open>
  A sequence of calls, each with the seeds of its reconciliation pass. The messages of
  the calls are concatenated in the order sent; a failure ends the sequence.
\<close>

datatype call = CallJoin "string list" | CallLeave "string list" | CallLeaveAll

fun do_call :: "seeds \<Rightarrow> call \<Rightarrow> Client \<Rightarrow> failure + (message list \<times> Client)" where
  "do_call sd (CallJoin chs) cli = Join sd chs cli"
| "do_call sd (CallLeave chs) cli = Leave sd chs cli"
| "do_call sd CallLeaveAll cli = LeaveAll sd cli"

fun run_calls :: "(call \<times> seeds) list \<Rightarrow> Client \<Rightarrow> failure + (message list \<times> Client)" where
  "run_calls [] cli = Inr ([], cli)"
| "run_calls ((c, sd) # rest) cli =
     (case do_call sd c cli of
        Inl e \<Rightarrow> Inl e
      | Inr (ms, cli') \<Rightarrow>
          (case run_calls rest cli' of
             Inl e \<Rightarrow> Inl e
           | Inr (ms', cli'') \<Rightarrow> Inr (ms @ ms', cli'')))"

text \<open>
  The state of a client between a successful \<^verbatim>\<open>Connect\<close> and the next \<^verbatim>\<open>Disconnect\<close>:
  \<^verbatim>\<open>Connect\<close> makes the channels (\<^verbatim>\<open>channelInitialize\<close>), panics in \<^verbatim>\<open>makeAuthURL\<close> unless the
  provider is one of the two constants, and only then dials and stores the socket.
\<close>

definition ready :: "Client \<Rightarrow> bool" where
  "ready cli \<longleftrightarrow>
     Connected cli \<and> q cli = ChanOpen \<and> (provider cli = IEX \<or> provider cli = QUODD)"

text \<open>
  A channel has an outstanding join in a sequence of sent messages when the sequence
  holds its join message with no leave message for it further on.
\<close>

fun outstanding :: "provider \<Rightarrow> message list \<Rightarrow> string \<Rightarrow> bool" where
  "outstanding p [] c = False"
| "outstanding p (m # ms) c =
     ((makeJoinMessage p c = Inr m \<and> \<not> list_ex (\<lambda>m'. makeLeaveMessage p c = Inr m') ms)
      \<or> outstanding p ms c)"

subsection \<open>Disconnect in \<^verbatim>\<open>src/unnamed/part_001\<close>\<close>

text \<open>The socket operations a call performs, in order.\<close>

datatype sockop = WsClose

text \<open>
  The deferred function of \<^verbatim>\<open>startSender\<close>. \<^verbatim>\<open>cli.q\<close> is unbuffered, so \<^verbatim>\<open>len(cli.q)\<close> is 0
  and the waiting loop does not run; then \<^verbatim>\<open>close(cli.q)\<close>, \<^verbatim>\<open>cli.ws.Close()\<close> (its error is
  dropped), \<^verbatim>\<open>cli.ws = nil\<close> and \<^verbatim>\<open>close(cli.sended)\<close>.
\<close>

definition senderTeardown :: "Client \<Rightarrow> failure + (sockop list \<times> Client)" where
  "senderTeardown cli =
     (case chan_close (q cli) of
        Inl e \<Rightarrow> Inl e
      | Inr qc \<Rightarrow>
          (case ws cli of
             None \<Rightarrow> Inl (Panic ''invalid memory address or nil pointer dereference'')
           | Some c \<Rightarrow>
               (case chan_close (sended cli) of
                  Inl e \<Rightarrow> Inl e
                | Inr sc \<Rightarrow> Inr ([WsClose], cli\<lparr>q := qc, ws := None, sended := sc\<rparr>))))"

text \<open>
  \<^verbatim>\<open>Disconnect\<close> returns an error value (\<open>None\<close> is \<^verbatim>\<open>nil\<close>), the socket operations performed
  and the client. The receive \<^verbatim>\<open><-cli.sended\<close> returns when the sender goroutine, released
  by the closed \<^verbatim>\<open>breakSender\<close>, has run its deferred function; the model runs that
  function at this point. The heartbeat goroutine is taken to be waiting on its ticker.
\<close>

definition Disconnect :: "Client \<Rightarrow> failure + (string option \<times> sockop list \<times> Client)" where
  "Disconnect cli =
     (if Connected cli = False then Inr (None, [], cli)
      else if closing cli then Inr (None, [], cli)
      else
        (case chan_close (breakHartbeat cli) of
           Inl e \<Rightarrow> Inl e
         | Inr bh \<Rightarrow>
             (case chan_close (breakSender cli) of
                Inl e \<Rightarrow> Inl e
              | Inr bs \<Rightarrow>
                  (case senderTeardown
                          (cli\<lparr>closing := True, breakHartbeat := bh, breakSender := bs\<rparr>) of
                     Inl e \<Rightarrow> Inl e
                   | Inr (ops, cli') \<Rightarrow> Inr (None, ops, cli'\<lparr>closing := False\<rparr>)))))"

subsection \<open>The client of \<^verbatim>\<open>src/client.go\<close>\<close>

text \<open>
  The struct of \<^verbatim>\<open>src/client.go\<close> has the channel \<^verbatim>\<open>sending\<close> where the other revision has
  \<^verbatim>\<open>sended\<close> and \<^verbatim>\<open>closing\<close>, and \<^verbatim>\<open>New\<close> makes all four channels. Its names carry the suffix
  \<open>_go\<close> where they would clash.
\<close>

record Client_go =
  DebugMode_go :: bool
  username_go :: string
  password_go :: string
  provider_go :: provider
  token_go :: string
  ws_go :: "conn option"
  channels_go :: chanset
  joinedChannels_go :: chanset
  quoteHander_go :: "handler option"
  errorHandler_go :: "handler option"
  sending :: chan
  breakHartbeat_go :: chan
  breakSender_go :: chan
  q_go :: chan

definition New_go :: "string \<Rightarrow> string \<Rightarrow> provider \<Rightarrow> Client_go" where
  "New_go user pass prov =
     \<lparr> DebugMode_go = False, username_go = user, password_go = pass, provider_go = prov,
       token_go = [], ws_go = None, channels_go = fmempty, joinedChannels_go = fmempty,
       quoteHander_go = None, errorHandler_go = None,
       sending = ChanOpen, breakHartbeat_go = ChanOpen, breakSender_go = ChanOpen,
       q_go = ChanOpen \<rparr>"

definition connected :: "Client_go \<Rightarrow> bool" where
  "connected cli \<longleftrightarrow> ws_go cli \<noteq> None"

text \<open>
  \<^verbatim>\<open>Disconnect\<close> of \<^verbatim>\<open>src/client.go\<close>. The first argument is what \<^verbatim>\<open>cli.ws.Close()\<close> returns
  (\<open>None\<close> is \<^verbatim>\<open>nil\<close>). The receive \<^verbatim>\<open><-cli.sending\<close> returns when the sender goroutine,
  released by the closed \<^verbatim>\<open>breakSender\<close>, has closed \<^verbatim>\<open>cli.sending\<close>.
\<close>

definition Disconnect_go ::
  "string option \<Rightarrow> Client_go \<Rightarrow> failure + (string option \<times> sockop list \<times> Client_go)" where
  "Disconnect_go close_result cli =
     (if connected cli = False then Inr (None, [], cli)
      else
        (case chan_close (breakHartbeat_go cli) of
           Inl e \<Rightarrow> Inl e
         | Inr bh \<Rightarrow>
             (case chan_close (breakSender_go cli) of
                Inl e \<Rightarrow> Inl e
              | Inr bs \<Rightarrow>
                  (case chan_close (sending cli) of
                     Inl e \<Rightarrow> Inl e
                   | Inr sg \<Rightarrow>
                       (case close_result of
                          Some err \<Rightarrow>
                            Inr (Some err, [WsClose],
                                 cli\<lparr>breakHartbeat_go := bh, breakSender_go := bs,
                                     sending := sg\<rparr>)
                        | None \<Rightarrow>
                            Inr (None, [WsClose],
                                 cli\<lparr>breakHartbeat_go := bh, breakSender_go := bs,
                                     sending := sg, ws_go := None\<rparr>))))))"

subsection \<open>Auxiliary definitions\<close>

text \<open>
  The keys for which the first loop of \<^verbatim>\<open>refreshChannels\<close> sends a join message, and those
  for which the second loop sends a leave message, in the order visited.
\<close>

definition joins_due :: "seeds \<Rightarrow> Client \<Rightarrow> string list" where
  "joins_due sd cli =
     filter (\<lambda>k. fmlookup (joinedChannels cli) k = None)
       (range_order (seed_join sd) (channels cli))"

definition leaves_due :: "seeds \<Rightarrow> Client \<Rightarrow> string list" where
  "leaves_due sd cli =
     filter (\<lambda>k. fmlookup (channels cli) k = None)
       (range_order (seed_leave sd) (joinedChannels cli))"

text \<open>What a call does to \<^verbatim>\<open>cli.channels\<close> before it runs \<^verbatim>\<open>refreshChannels\<close>.\<close>

fun desired_after :: "call \<Rightarrow> chanset \<Rightarrow> chanset" where
  "desired_after (CallJoin chs) m = fold join_channel chs m"
| "desired_after (CallLeave chs) m = fold leave_channel chs m"
| "desired_after CallLeaveAll m = fmempty"

text \<open>
  States and seeds for the examples: a new IEX client, the same client once \<^verbatim>\<open>Connect\<close>
  has made its channels and stored a socket, and seeds that leave every loop in
  ascending order unless the map is empty.
\<close>

definition new_client :: Client where
  "new_client = New ''user'' ''secret'' IEX"

definition live_client :: Client where
  "live_client =
     new_client\<lparr>token := ''t0'', ws := Some (Conn 0), breakHartbeat := ChanOpen,
                breakSender := ChanOpen, sended := ChanOpen, q := ChanOpen\<rparr>"

definition no_seeds :: seeds where
  "no_seeds = \<lparr>seed_join = [], seed_leave = [], seed_copy = []\<rparr>"

text \<open>Whether a call asks to join the channel \<open>k\<close> (after trimming).\<close>

fun joins_channel :: "call \<Rightarrow> string \<Rightarrow> bool" where
  "joins_channel (CallJoin chs) k = (k \<in> TrimSpace ` set chs)"
| "joins_channel (CallLeave chs) k = False"
| "joins_channel CallLeaveAll k = False"

section \<open>Properties\<close>

subsection \<open>Construction\<close>

text \<open>
  C10. For every user name, password and provider value, \<^verbatim>\<open>New\<close> returns a client whose
  desired set (\<^verbatim>\<open>channels\<close>) and joined set (\<^verbatim>\<open>joinedChannels\<close>) are both empty and for which
  \<^verbatim>\<open>Connected()\<close> is false. \<^verbatim>\<open>New\<close> has no error result and stores the provider it is given
  without looking at it, whatever the value. The same holds for \<^verbatim>\<open>New\<close> of
  \<^verbatim>\<open>src/client.go\<close>.
\<close>

theorem New_empty_not_connected:
  "channels (New user pass prov) = fmempty
   \<and> joinedChannels (New user pass prov) = fmempty
   \<and> Connected (New user pass prov) = False
   \<and> provider (New user pass prov) = prov
   \<and> channels_go (New_go user pass prov) = fmempty
   \<and> joinedChannels_go (New_go user pass prov) = fmempty
   \<and> connected (New_go user pass prov) = False
   \<and> provider_go (New_go user pass prov) = prov"
  by (simp add: New_def Connected_def New_go_def connected_def)

subsection \<open>Auxiliary facts\<close>

lemma IEX_neq_QUODD: "IEX \<noteq> QUODD"
  by (simp add: IEX_def QUODD_def)

lemma range_order_distinct: "distinct (range_order seed m)"
  by (simp add: range_order_def sorted_list_of_fset.rep_eq)

lemma range_order_set: "set (range_order seed m) = fmdom' m"
proof (cases "distinct seed \<and> fset_of_list seed = fmdom m")
  case True
  then have "fset (fset_of_list seed) = fset (fmdom m)" by simp
  then have "set seed = fmdom' m" by (simp add: fset_of_list.rep_eq fmdom'_alt_def)
  moreover from True have "range_order seed m = seed"
    by (simp add: range_order_def)
  ultimately show ?thesis by simp
next
  case False
  then have "range_order seed m = sorted_list_of_fset (fmdom m)"
    by (simp only: range_order_def if_False)
  then show ?thesis by (simp add: fmdom'_alt_def)
qed

lemma fold_fmupd_lookup:
  "fmlookup (fold (\<lambda>k m. fmupd k True m) ks m0) x =
     (if x \<in> set ks then Some True else fmlookup m0 x)"
  by (induction ks arbitrary: m0) auto

lemma copy_loop_range:
  "copy_loop (range_order seed m) = fmmap (\<lambda>_. True) m"
proof (rule fmap_ext)
  fix x
  show "fmlookup (copy_loop (range_order seed m)) x = fmlookup (fmmap (\<lambda>_. True) m) x"
    by (cases "fmlookup m x")
       (auto simp: copy_loop_def fold_fmupd_lookup range_order_set fmlookup_dom'_iff)
qed

lemma parseTopic_cases:
  "parseTopic a = ''iex:lobby'' \<and> a = ''$lobby'' \<or>
   parseTopic a = ''iex:lobby:last_price'' \<and> a = ''$lobby_last_price'' \<or>
   parseTopic a = ''iex:securities:'' @ a \<and> a \<noteq> ''$lobby'' \<and> a \<noteq> ''$lobby_last_price''"
  unfolding parseTopic_def by presburger

lemma parseTopic_injD: "parseTopic a = parseTopic b \<Longrightarrow> a = b"
  using parseTopic_cases [of a] parseTopic_cases [of b]
  by (elim disjE conjE) simp_all

lemma parseTopic_inj: "parseTopic a = parseTopic b \<longleftrightarrow> a = b"
  using parseTopic_injD by blast

lemma makeJoinMessage_IEX:
  "makeJoinMessage IEX c =
     Inr [(''topic'', JString (parseTopic c)), (''event'', JString ''phx_join''),
          (''payload'', JObject []), (''ref'', JNull)]"
  by (simp add: makeJoinMessage_def)

lemma makeJoinMessage_QUODD:
  "makeJoinMessage QUODD c =
     Inr [(''event'', JString ''subscribe''),
          (''data'', JObject [(''ticker'', JString c), (''action'', JString ''subscribe'')])]"
  by (simp add: makeJoinMessage_def IEX_neq_QUODD [symmetric])

lemma makeLeaveMessage_IEX:
  "makeLeaveMessage IEX c =
     Inr [(''topic'', JString (parseTopic c)), (''event'', JString ''phx_leave''),
          (''payload'', JObject []), (''ref'', JNull)]"
  by (simp add: makeLeaveMessage_def)

lemma makeLeaveMessage_QUODD:
  "makeLeaveMessage QUODD c =
     Inr [(''event'', JString ''unsubscribe''),
          (''data'', JObject [(''ticker'', JString c), (''action'', JString ''unsubscribe'')])]"
  by (simp add: makeLeaveMessage_def IEX_neq_QUODD [symmetric])


lemma makeJoinMessage_inj:
  assumes "p = IEX \<or> p = QUODD" and "makeJoinMessage p a = makeJoinMessage p b"
  shows "a = b"
  using assms
  by (elim disjE) (simp_all add: makeJoinMessage_IEX makeJoinMessage_QUODD parseTopic_inj)

lemma makeLeaveMessage_inj:
  assumes "p = IEX \<or> p = QUODD" and "makeLeaveMessage p a = makeLeaveMessage p b"
  shows "a = b"
  using assms
  by (elim disjE) (simp_all add: makeLeaveMessage_IEX makeLeaveMessage_QUODD parseTopic_inj)

lemma join_neq_leave:
  assumes "p = IEX \<or> p = QUODD"
  shows "makeJoinMessage p a \<noteq> makeLeaveMessage p b"
  using assms
  by (elim disjE)
     (simp_all add: makeJoinMessage_IEX makeJoinMessage_QUODD makeLeaveMessage_IEX
        makeLeaveMessage_QUODD)

lemma makeJoinMessage_Inr:
  assumes "p = IEX \<or> p = QUODD"
  shows "makeJoinMessage p k = Inr (projr (makeJoinMessage p k))"
  using assms by (elim disjE) (simp_all add: makeJoinMessage_IEX makeJoinMessage_QUODD)

lemma makeLeaveMessage_Inr:
  assumes "p = IEX \<or> p = QUODD"
  shows "makeLeaveMessage p k = Inr (projr (makeLeaveMessage p k))"
  using assms by (elim disjE) (simp_all add: makeLeaveMessage_IEX makeLeaveMessage_QUODD)

lemma join_loop_open:
  assumes "p = IEX \<or> p = QUODD"
  shows "join_loop p ChanOpen joined ks =
           Inr (map (\<lambda>k. projr (makeJoinMessage p k)) (filter (\<lambda>k. fmlookup joined k = None) ks))"
proof (induction ks)
  case Nil
  show ?case by simp
next
  case (Cons k ks)
  from assms have "makeJoinMessage p k = Inr (projr (makeJoinMessage p k))"
    by (rule makeJoinMessage_Inr)
  then obtain m where m: "makeJoinMessage p k = Inr m" "projr (makeJoinMessage p k) = m"
    by simp
  with Cons show ?case by (simp add: chan_send_def)
qed

lemma leave_loop_open:
  assumes "p = IEX \<or> p = QUODD"
  shows "leave_loop p ChanOpen desired ks =
           Inr (map (\<lambda>k. projr (makeLeaveMessage p k)) (filter (\<lambda>k. fmlookup desired k = None) ks))"
proof (induction ks)
  case Nil
  show ?case by simp
next
  case (Cons k ks)
  from assms have "makeLeaveMessage p k = Inr (projr (makeLeaveMessage p k))"
    by (rule makeLeaveMessage_Inr)
  then obtain m where m: "makeLeaveMessage p k = Inr m" "projr (makeLeaveMessage p k) = m"
    by simp
  with Cons show ?case by (simp add: chan_send_def)
qed


lemma lookup_None_iff: "fmlookup m k = None \<longleftrightarrow> k \<notin> fmdom' m"
  by (simp add: fmlookup_dom'_iff)

lemma joins_due_set: "set (joins_due sd cli) = fmdom' (channels cli) - fmdom' (joinedChannels cli)"
  by (auto simp: joins_due_def range_order_set lookup_None_iff)

lemma leaves_due_set: "set (leaves_due sd cli) = fmdom' (joinedChannels cli) - fmdom' (channels cli)"
  by (auto simp: leaves_due_def range_order_set lookup_None_iff)

lemma joins_due_distinct: "distinct (joins_due sd cli)"
  by (simp add: joins_due_def range_order_distinct)

lemma leaves_due_distinct: "distinct (leaves_due sd cli)"
  by (simp add: leaves_due_def range_order_distinct)

lemma refreshChannels_ready:
  assumes "ready cli"
  shows "refreshChannels sd cli =
           Inr (map (\<lambda>k. projr (makeJoinMessage (provider cli) k)) (joins_due sd cli)
                  @ map (\<lambda>k. projr (makeLeaveMessage (provider cli) k)) (leaves_due sd cli),
                cli\<lparr>joinedChannels := fmmap (\<lambda>_. True) (channels cli)\<rparr>)"
proof -
  from assms have c: "Connected cli" and o: "q cli = ChanOpen"
    and v: "provider cli = IEX \<or> provider cli = QUODD"
    by (simp_all add: ready_def)
  show ?thesis
    unfolding refreshChannels_def
    by (simp add: c o join_loop_open [OF v] leave_loop_open [OF v] copy_loop_range
          joins_due_def leaves_due_def)
qed

lemma refreshChannels_not_connected:
  "Connected cli = False \<Longrightarrow> refreshChannels sd cli = Inr ([], cli)"
  by (simp add: refreshChannels_def)



lemma join_msg_eq_iff:
  assumes "p = IEX \<or> p = QUODD"
  shows "projr (makeJoinMessage p a) = projr (makeJoinMessage p b) \<longleftrightarrow> a = b"
proof
  assume "projr (makeJoinMessage p a) = projr (makeJoinMessage p b)"
  then have "makeJoinMessage p a = makeJoinMessage p b"
    using makeJoinMessage_Inr [OF assms, of a] makeJoinMessage_Inr [OF assms, of b] by simp
  then show "a = b" by (rule makeJoinMessage_inj [OF assms])
qed simp

lemma leave_msg_eq_iff:
  assumes "p = IEX \<or> p = QUODD"
  shows "projr (makeLeaveMessage p a) = projr (makeLeaveMessage p b) \<longleftrightarrow> a = b"
proof
  assume "projr (makeLeaveMessage p a) = projr (makeLeaveMessage p b)"
  then have "makeLeaveMessage p a = makeLeaveMessage p b"
    using makeLeaveMessage_Inr [OF assms, of a] makeLeaveMessage_Inr [OF assms, of b] by simp
  then show "a = b" by (rule makeLeaveMessage_inj [OF assms])
qed simp





subsection \<open>Reconciliation\<close>




subsection \<open>Facts about \<^verbatim>\<open>strings.TrimSpace\<close>\<close>

lemma space_runes_nonempty: "w \<in> set space_runes \<Longrightarrow> w \<noteq> []"
  by (auto simp: space_runes_def)

lemma lead_zero_iff: "lead rs s = 0 \<longleftrightarrow> (\<forall>w\<in>set rs. w \<noteq> [] \<longrightarrow> \<not> prefix w s)"
proof (cases "filter (\<lambda>w. w \<noteq> [] \<and> prefix w s) rs")
  case Nil
  then have "\<forall>w\<in>set rs. \<not> (w \<noteq> [] \<and> prefix w s)"
    by (simp add: filter_empty_conv)
  with Nil show ?thesis by (auto simp: lead_def)
next
  case (Cons w rest)
  then have "w \<in> set (filter (\<lambda>w. w \<noteq> [] \<and> prefix w s) rs)" by simp
  then have "w \<in> set rs" "w \<noteq> []" "prefix w s" by simp_all
  with Cons show ?thesis by (auto simp: lead_def)
qed

lemma strip_lead: "lead rs (strip rs s) = 0"
proof (induction rs s rule: strip.induct)
  case (1 rs s)
  show ?case
  proof (cases "lead rs s = 0")
    case True
    then show ?thesis by (simp add: strip.simps)
  next
    case False
    with 1 show ?thesis by (subst strip.simps) simp
  qed
qed

lemma strip_suffix: "suffix (strip rs s) s"
proof (induction rs s rule: strip.induct)
  case (1 rs s)
  show ?case
  proof (cases "lead rs s = 0")
    case True
    then show ?thesis by (simp add: strip.simps)
  next
    case False
    with 1 have "suffix (strip rs (drop (lead rs s) s)) (drop (lead rs s) s)" by simp
    moreover have "suffix (drop (lead rs s) s) s" by (rule suffix_drop)
    ultimately have "suffix (strip rs (drop (lead rs s) s)) s" by (rule suffix_order.trans)
    with False show ?thesis by (subst strip.simps) simp
  qed
qed

lemma strip_id: "lead rs s = 0 \<Longrightarrow> strip rs s = s"
  by (simp add: strip.simps)

lemma TrimLeft_no_prefix: "w \<in> set space_runes \<Longrightarrow> \<not> prefix w (TrimLeft s)"
  using strip_lead [of space_runes s] space_runes_nonempty
  by (auto simp: lead_zero_iff TrimLeft_def)

lemma TrimRight_no_suffix:
  assumes "w \<in> set space_runes"
  shows "\<not> suffix w (TrimRight s)"
proof -
  from assms have "rev w \<in> set (map rev space_runes)" "rev w \<noteq> []"
    using space_runes_nonempty by auto
  with strip_lead [of "map rev space_runes" "rev s"]
  have "\<not> prefix (rev w) (strip (map rev space_runes) (rev s))"
    unfolding lead_zero_iff by blast
  then show ?thesis by (simp add: TrimRight_def suffix_to_prefix)
qed

lemma TrimRight_prefix: "prefix (TrimRight s) s"
  using strip_suffix [of "map rev space_runes" "rev s"]
  by (simp add: TrimRight_def suffix_to_prefix)

lemma trimmed_TrimSpace: "trimmed (TrimSpace s)"
proof -
  have "\<not> prefix w (TrimSpace s)" if "w \<in> set space_runes" for w
  proof
    assume "prefix w (TrimSpace s)"
    moreover have "prefix (TrimSpace s) (TrimLeft s)"
      unfolding TrimSpace_def by (rule TrimRight_prefix)
    ultimately have "prefix w (TrimLeft s)" by (rule prefix_order.trans)
    with TrimLeft_no_prefix [OF that] show False by blast
  qed
  moreover have "\<not> suffix w (TrimSpace s)" if "w \<in> set space_runes" for w
    unfolding TrimSpace_def by (rule TrimRight_no_suffix [OF that])
  ultimately show ?thesis by (auto simp: trimmed_def list_ex_iff)
qed

lemma TrimSpace_trimmed_id:
  assumes "trimmed s"
  shows "TrimSpace s = s"
proof -
  from assms have a: "\<forall>w\<in>set space_runes. \<not> prefix w s"
    and b: "\<forall>w\<in>set space_runes. \<not> suffix w s"
    by (auto simp: trimmed_def list_ex_iff)
  from a have "lead space_runes s = 0" by (simp add: lead_zero_iff)
  then have l: "TrimLeft s = s" by (simp add: TrimLeft_def strip_id)
  from b have "\<forall>w\<in>set (map rev space_runes). \<not> prefix w (rev s)"
    by (auto simp: suffix_to_prefix)
  then have "lead (map rev space_runes) (rev s) = 0" by (simp add: lead_zero_iff)
  then have "TrimRight s = s" by (simp add: TrimRight_def strip_id)
  with l show ?thesis by (simp add: TrimSpace_def)
qed

lemma TrimSpace_empty: "TrimSpace [] = []"
  by (simp add: TrimSpace_def TrimLeft_def TrimRight_def strip.simps lead_def)

lemma TrimSpace_blank: "TrimSpace ''  '' = []"
  by (simp add: TrimSpace_def TrimLeft_def TrimRight_def strip.simps lead_def space_runes_def)

lemma TrimSpace_AAPL: "TrimSpace '' AAPL '' = ''AAPL''"
  by (simp add: TrimSpace_def TrimLeft_def TrimRight_def strip.simps lead_def space_runes_def)

lemma TrimSpace_tickers:
  "TrimSpace ''AAPL'' = ''AAPL''" "TrimSpace ''MSFT'' = ''MSFT''" "TrimSpace ''GE'' = ''GE''"
  by (simp_all add: TrimSpace_def TrimLeft_def TrimRight_def strip.simps lead_def space_runes_def)

subsection \<open>Facts about sent messages and calls\<close>

lemma outstanding_append:
  "outstanding p (xs @ ys) c \<longleftrightarrow>
     (outstanding p xs c \<and> \<not> list_ex (\<lambda>m'. makeLeaveMessage p c = Inr m') ys)
     \<or> outstanding p ys c"
  by (induction xs) auto

lemma leave_in_leave_msgs:
  assumes "p = IEX \<or> p = QUODD"
  shows "list_ex (\<lambda>m'. makeLeaveMessage p c = Inr m')
           (map (\<lambda>k. projr (makeLeaveMessage p k)) ls) \<longleftrightarrow> c \<in> set ls"
proof -
  have "makeLeaveMessage p c = Inr (projr (makeLeaveMessage p k)) \<longleftrightarrow> c = k" for k
    using makeLeaveMessage_Inr [OF assms, of c] leave_msg_eq_iff [OF assms, of c k]
    by (metis sum.inject(2))
  then show ?thesis by (auto simp: list_ex_iff)
qed

lemma leave_in_join_msgs:
  assumes "p = IEX \<or> p = QUODD"
  shows "\<not> list_ex (\<lambda>m'. makeLeaveMessage p c = Inr m')
           (map (\<lambda>k. projr (makeJoinMessage p k)) js)"
proof -
  have "makeLeaveMessage p c \<noteq> Inr (projr (makeJoinMessage p k))" for k
    using makeJoinMessage_Inr [OF assms, of k] join_neq_leave [OF assms, of k c] by metis
  then show ?thesis by (simp add: list_ex_iff)
qed

lemma join_in_join_msgs:
  assumes "p = IEX \<or> p = QUODD"
  shows "makeJoinMessage p c \<in> Inr ` set (map (\<lambda>k. projr (makeJoinMessage p k)) js)
           \<longleftrightarrow> c \<in> set js"
proof -
  have "makeJoinMessage p c = Inr (projr (makeJoinMessage p k)) \<longleftrightarrow> c = k" for k
    using makeJoinMessage_Inr [OF assms, of c] join_msg_eq_iff [OF assms, of c k]
    by (metis sum.inject(2))
  moreover have "makeJoinMessage p c \<in> Inr ` set (map (\<lambda>k. projr (makeJoinMessage p k)) js)
      \<longleftrightarrow> (\<exists>k\<in>set js. makeJoinMessage p c = Inr (projr (makeJoinMessage p k)))"
    by (simp add: image_iff)
  ultimately show ?thesis by simp
qed

lemma join_in_leave_msgs:
  assumes "p = IEX \<or> p = QUODD"
  shows "makeJoinMessage p c \<notin> Inr ` set (map (\<lambda>k. projr (makeLeaveMessage p k)) ls)"
proof -
  have "makeJoinMessage p c \<noteq> Inr (projr (makeLeaveMessage p k))" for k
    using makeLeaveMessage_Inr [OF assms, of k] join_neq_leave [OF assms, of c k] by metis
  moreover have "makeJoinMessage p c \<in> Inr ` set (map (\<lambda>k. projr (makeLeaveMessage p k)) ls)
      \<longleftrightarrow> (\<exists>k\<in>set ls. makeJoinMessage p c = Inr (projr (makeLeaveMessage p k)))"
    by (simp add: image_iff)
  ultimately show ?thesis by simp
qed

lemma leave_in_leave_msgs_image:
  assumes "p = IEX \<or> p = QUODD"
  shows "makeLeaveMessage p c \<in> Inr ` set (map (\<lambda>k. projr (makeLeaveMessage p k)) ls)
           \<longleftrightarrow> c \<in> set ls"
  using leave_in_leave_msgs [OF assms, of c ls] by (simp add: list_ex_iff image_iff)

lemma leave_in_join_msgs_image:
  assumes "p = IEX \<or> p = QUODD"
  shows "makeLeaveMessage p c \<notin> Inr ` set (map (\<lambda>k. projr (makeJoinMessage p k)) js)"
  using leave_in_join_msgs [OF assms, of c js] by (simp add: list_ex_iff image_iff)

lemma outstanding_join_msgs:
  assumes "p = IEX \<or> p = QUODD"
  shows "outstanding p (map (\<lambda>k. projr (makeJoinMessage p k)) js) c \<longleftrightarrow> c \<in> set js"
proof (induction js)
  case Nil
  show ?case by simp
next
  case (Cons k js)
  have "makeJoinMessage p c = Inr (projr (makeJoinMessage p k)) \<longleftrightarrow> c = k"
    using makeJoinMessage_Inr [OF assms, of c] join_msg_eq_iff [OF assms, of c k]
    by (metis sum.inject(2))
  with Cons leave_in_join_msgs [OF assms, of c js] show ?case by auto
qed

lemma outstanding_leave_msgs:
  assumes "p = IEX \<or> p = QUODD"
  shows "\<not> outstanding p (map (\<lambda>k. projr (makeLeaveMessage p k)) ls) c"
proof (induction ls)
  case Nil
  show ?case by simp
next
  case (Cons k ls)
  have "makeJoinMessage p c \<noteq> Inr (projr (makeLeaveMessage p k))"
    using makeLeaveMessage_Inr [OF assms, of k] join_neq_leave [OF assms, of c k] by metis
  with Cons show ?case by simp
qed

lemma outstanding_pass:
  assumes "p = IEX \<or> p = QUODD"
  shows "outstanding p (tr @ map (\<lambda>k. projr (makeJoinMessage p k)) js
                          @ map (\<lambda>k. projr (makeLeaveMessage p k)) ls) c
         \<longleftrightarrow> (outstanding p tr c \<or> c \<in> set js) \<and> c \<notin> set ls"
  by (simp only: outstanding_append list_ex_append leave_in_leave_msgs [OF assms]
        leave_in_join_msgs [OF assms] outstanding_join_msgs [OF assms]
        outstanding_leave_msgs [OF assms]) blast

lemma do_call_refresh:
  "do_call sd call cli = refreshChannels sd (cli\<lparr>channels := desired_after call (channels cli)\<rparr>)"
  by (cases call) (simp_all add: Join_def Leave_def LeaveAll_def)

lemma ready_channels_update: "ready (cli\<lparr>channels := m\<rparr>) = ready cli"
  by (simp add: ready_def Connected_def)

lemma ready_joinedChannels_update: "ready (cli\<lparr>joinedChannels := m\<rparr>) = ready cli"
  by (simp add: ready_def Connected_def)

lemma do_call_not_connected:
  "Connected cli = False \<Longrightarrow>
   do_call sd call cli = Inr ([], cli\<lparr>channels := desired_after call (channels cli)\<rparr>)"
  by (simp add: do_call_refresh refreshChannels_def Connected_def)

lemma do_call_ready:
  assumes "ready cli"
  shows "do_call sd call cli =
           Inr (map (\<lambda>k. projr (makeJoinMessage (provider cli) k))
                    (joins_due sd (cli\<lparr>channels := desired_after call (channels cli)\<rparr>))
                  @ map (\<lambda>k. projr (makeLeaveMessage (provider cli) k))
                      (leaves_due sd (cli\<lparr>channels := desired_after call (channels cli)\<rparr>)),
                cli\<lparr>channels := desired_after call (channels cli),
                    joinedChannels := fmmap (\<lambda>_. True) (desired_after call (channels cli))\<rparr>)"
proof -
  have "ready (cli\<lparr>channels := desired_after call (channels cli)\<rparr>)"
    using assms by (simp add: ready_channels_update)
  from refreshChannels_ready [OF this, of sd] show ?thesis
    by (simp add: do_call_refresh)
qed

lemma do_call_converges:
  assumes r: "ready cli"
    and o: "{c. outstanding (provider cli) tr c} = fmdom' (joinedChannels cli)"
  shows "\<exists>ms cli'. do_call sd call cli = Inr (ms, cli') \<and> ready cli'
           \<and> provider cli' = provider cli
           \<and> channels cli' = desired_after call (channels cli)
           \<and> {c. outstanding (provider cli) (tr @ ms) c} = fmdom' (channels cli')
           \<and> fmdom' (joinedChannels cli') = fmdom' (channels cli')"
proof -
  from r have v: "provider cli = IEX \<or> provider cli = QUODD"
    by (simp add: ready_def)
  let ?c1 = "cli\<lparr>channels := desired_after call (channels cli)\<rparr>"
  let ?ms = "map (\<lambda>k. projr (makeJoinMessage (provider cli) k)) (joins_due sd ?c1)
               @ map (\<lambda>k. projr (makeLeaveMessage (provider cli) k)) (leaves_due sd ?c1)"
  let ?c2 = "cli\<lparr>channels := desired_after call (channels cli),
                 joinedChannels := fmmap (\<lambda>_. True) (desired_after call (channels cli))\<rparr>"
  have e: "do_call sd call cli = Inr (?ms, ?c2)"
    by (rule do_call_ready [OF r])
  have r2: "ready ?c2"
    using r by (simp add: ready_def Connected_def)
  have "outstanding (provider cli) (tr @ ?ms) c \<longleftrightarrow> c \<in> fmdom' (channels ?c2)" for c
  proof -
    from o have "outstanding (provider cli) tr c \<longleftrightarrow> c \<in> fmdom' (joinedChannels cli)"
      by blast
    then show ?thesis
      by (simp only: outstanding_pass [OF v] joins_due_set leaves_due_set) auto
  qed
  then have "{c. outstanding (provider cli) (tr @ ?ms) c} = fmdom' (channels ?c2)"
    by blast
  moreover have "provider ?c2 = provider cli" "fmdom' (joinedChannels ?c2) = fmdom' (channels ?c2)"
    "channels ?c2 = desired_after call (channels cli)"
    by simp_all
  ultimately show ?thesis using e r2 by blast
qed

lemma run_calls_converges:
  assumes "ready cli"
    and "{c. outstanding (provider cli) tr c} = fmdom' (joinedChannels cli)"
    and "calls = [] \<longrightarrow> fmdom' (channels cli) = fmdom' (joinedChannels cli)"
  shows "\<exists>ms cli'. run_calls calls cli = Inr (ms, cli') \<and> ready cli'
           \<and> provider cli' = provider cli
           \<and> channels cli' = foldl (\<lambda>m x. desired_after (fst x) m) (channels cli) calls
           \<and> {c. outstanding (provider cli) (tr @ ms) c} = fmdom' (channels cli')"
  using assms
proof (induction calls arbitrary: cli tr)
  case Nil
  then show ?case by simp
next
  case (Cons a calls)
  obtain call sd where a: "a = (call, sd)" by (cases a)
  from do_call_converges [OF Cons.prems(1,2), of sd call]
  obtain ms1 cli1 where s: "do_call sd call cli = Inr (ms1, cli1)" "ready cli1"
    "provider cli1 = provider cli"
    "{c. outstanding (provider cli) (tr @ ms1) c} = fmdom' (channels cli1)"
    "fmdom' (joinedChannels cli1) = fmdom' (channels cli1)"
    "channels cli1 = desired_after call (channels cli)"
    by blast
  have "\<exists>ms cli'. run_calls calls cli1 = Inr (ms, cli') \<and> ready cli'
           \<and> provider cli' = provider cli1
           \<and> channels cli' = foldl (\<lambda>m x. desired_after (fst x) m) (channels cli1) calls
           \<and> {c. outstanding (provider cli1) ((tr @ ms1) @ ms) c} = fmdom' (channels cli')"
    by (rule Cons.IH) (simp_all add: s(2,3,4,5))
  then obtain ms2 cli2 where t: "run_calls calls cli1 = Inr (ms2, cli2)" "ready cli2"
    "provider cli2 = provider cli1"
    "{c. outstanding (provider cli1) ((tr @ ms1) @ ms2) c} = fmdom' (channels cli2)"
    "channels cli2 = foldl (\<lambda>m x. desired_after (fst x) m) (channels cli1) calls"
    by blast
  have "run_calls (a # calls) cli = Inr (ms1 @ ms2, cli2)"
    by (simp add: a s(1) t(1))
  moreover have "{c. outstanding (provider cli) (tr @ ms1 @ ms2) c} = fmdom' (channels cli2)"
    using t(4) by (simp add: s(3))
  moreover have "provider cli2 = provider cli"
    by (simp add: t(3) s(3))
  moreover have "channels cli2 = foldl (\<lambda>m x. desired_after (fst x) m) (channels cli) (a # calls)"
    by (simp add: t(5) s(6) a)
  ultimately show ?case using t(2) by blast
qed

lemma fmdom'_join_channel: "fmdom' (join_channel ch m) = insert (TrimSpace ch) (fmdom' m)"
  by (auto simp: join_channel_def Let_def lookup_None_iff)

lemma fmdom'_leave_channel: "fmdom' (leave_channel ch m) = fmdom' m - {TrimSpace ch}"
  by (simp add: leave_channel_def)

lemma fmdom'_fold_join: "fmdom' (fold join_channel chs m) = fmdom' m \<union> TrimSpace ` set chs"
  by (induction chs arbitrary: m) (auto simp: fmdom'_join_channel)

lemma fmdom'_fold_leave: "fmdom' (fold leave_channel chs m) = fmdom' m - TrimSpace ` set chs"
  by (induction chs arbitrary: m) (auto simp: fmdom'_leave_channel)

lemma join_channel_present: "TrimSpace ch \<in> fmdom' m \<Longrightarrow> join_channel ch m = m"
  by (simp add: join_channel_def Let_def lookup_None_iff)

lemma join_channel_absent: "TrimSpace ch \<notin> fmdom' m \<Longrightarrow> join_channel ch m = fmupd (TrimSpace ch) True m"
  by (simp add: join_channel_def Let_def lookup_None_iff)

lemma leave_channel_absent: "TrimSpace ch \<notin> fmdom' m \<Longrightarrow> leave_channel ch m = m"
  by (simp add: leave_channel_def fmdrop_idle')

lemma desired_after_not_joined:
  "\<not> joins_channel call k \<Longrightarrow> k \<notin> fmdom' m \<Longrightarrow> k \<notin> fmdom' (desired_after call m)"
  by (cases call) (auto simp: fmdom'_fold_join fmdom'_fold_leave)

lemma do_call_no_leave:
  assumes m: "Connected cli = False \<or> ready cli"
    and d: "k \<notin> fmdom' (channels cli)" and j: "k \<notin> fmdom' (joinedChannels cli)"
    and n: "\<not> joins_channel call k"
  shows "\<exists>ms cli'. do_call sd call cli = Inr (ms, cli')
           \<and> (Connected cli' = False \<or> ready cli') \<and> provider cli' = provider cli
           \<and> k \<notin> fmdom' (channels cli') \<and> k \<notin> fmdom' (joinedChannels cli')
           \<and> makeLeaveMessage (provider cli) k \<notin> Inr ` set ms"
proof (cases "ready cli")
  case True
  then have v: "provider cli = IEX \<or> provider cli = QUODD" by (simp add: ready_def)
  let ?D = "desired_after call (channels cli)"
  let ?c1 = "cli\<lparr>channels := ?D\<rparr>"
  let ?js = "map (\<lambda>k. projr (makeJoinMessage (provider cli) k)) (joins_due sd ?c1)"
  let ?ls = "map (\<lambda>k. projr (makeLeaveMessage (provider cli) k)) (leaves_due sd ?c1)"
  let ?c2 = "cli\<lparr>channels := ?D, joinedChannels := fmmap (\<lambda>_. True) ?D\<rparr>"
  have e: "do_call sd call cli = Inr (?js @ ?ls, ?c2)"
    by (rule do_call_ready [OF True])
  have k: "k \<notin> fmdom' ?D" by (rule desired_after_not_joined [OF n d])
  have "k \<notin> set (leaves_due sd ?c1)" using j by (simp add: leaves_due_set)
  then have "makeLeaveMessage (provider cli) k \<notin> Inr ` set ?ls"
    using leave_in_leave_msgs_image [OF v, of k "leaves_due sd ?c1"] by blast
  moreover have "makeLeaveMessage (provider cli) k \<notin> Inr ` set ?js"
    by (rule leave_in_join_msgs_image [OF v])
  ultimately have l: "makeLeaveMessage (provider cli) k \<notin> Inr ` set (?js @ ?ls)"
    by (simp only: set_append image_Un Un_iff) blast
  have r2: "ready ?c2" using True by (simp add: ready_def Connected_def)
  have f: "provider ?c2 = provider cli" "k \<notin> fmdom' (channels ?c2)"
    "k \<notin> fmdom' (joinedChannels ?c2)"
    using k by simp_all
  show ?thesis
    by (intro exI conjI, rule e, rule disjI2, rule r2, rule f(1), rule f(2), rule f(3), rule l)
next
  case False
  with m have c: "Connected cli = False" by blast
  let ?c2 = "cli\<lparr>channels := desired_after call (channels cli)\<rparr>"
  have e: "do_call sd call cli = Inr ([], ?c2)"
    by (rule do_call_not_connected [OF c])
  have c2: "Connected ?c2 = False" using c by (simp add: Connected_def)
  have f: "provider ?c2 = provider cli" "k \<notin> fmdom' (channels ?c2)"
    "k \<notin> fmdom' (joinedChannels ?c2)"
    using desired_after_not_joined [OF n d] j by simp_all
  have l: "makeLeaveMessage (provider cli) k \<notin> Inr ` set []" by simp
  show ?thesis
    by (intro exI conjI, rule e, rule disjI1, rule c2, rule f(1), rule f(2), rule f(3), rule l)
qed

lemma run_calls_no_leave:
  assumes "Connected cli = False \<or> ready cli"
    and "k \<notin> fmdom' (channels cli)" and "k \<notin> fmdom' (joinedChannels cli)"
    and "\<forall>x\<in>set calls. \<not> joins_channel (fst x) k"
  shows "\<exists>ms cli'. run_calls calls cli = Inr (ms, cli')
           \<and> makeLeaveMessage (provider cli) k \<notin> Inr ` set ms"
  using assms
proof (induction calls arbitrary: cli)
  case Nil
  then show ?case by simp
next
  case (Cons a calls)
  obtain call sd where a: "a = (call, sd)" by (cases a)
  with Cons.prems(4) have n: "\<not> joins_channel call k" by simp
  from do_call_no_leave [OF Cons.prems(1,2,3) n, of sd]
  obtain ms1 cli1 where s: "do_call sd call cli = Inr (ms1, cli1)"
    "Connected cli1 = False \<or> ready cli1" "provider cli1 = provider cli"
    "k \<notin> fmdom' (channels cli1)" "k \<notin> fmdom' (joinedChannels cli1)"
    "makeLeaveMessage (provider cli) k \<notin> Inr ` set ms1"
    by blast
  from Cons.prems(4) have "\<forall>x\<in>set calls. \<not> joins_channel (fst x) k" by simp
  from Cons.IH [OF s(2) s(4) s(5) this]
  obtain ms2 cli2 where t: "run_calls calls cli1 = Inr (ms2, cli2)"
    "makeLeaveMessage (provider cli1) k \<notin> Inr ` set ms2"
    by blast
  have "run_calls (a # calls) cli = Inr (ms1 @ ms2, cli2)"
    by (simp add: a s(1) t(1))
  moreover have "makeLeaveMessage (provider cli) k \<notin> Inr ` set (ms1 @ ms2)"
    using s(6) t(2) by (simp add: s(3) image_Un)
  ultimately show ?case by blast
qed

lemma distinct_set_empty: "set xs = {} \<Longrightarrow> xs = []"
  by simp

lemma distinct_set_single:
  assumes "distinct xs" and "set xs = {a}"
  shows "xs = [a]"
proof (cases xs)
  case Nil
  with assms(2) show ?thesis by simp
next
  case (Cons x ys)
  with assms(2) have i: "insert x (set ys) = {a}" by simp
  have "x \<in> insert x (set ys)" by simp
  then have "x \<in> {a}" unfolding i .
  then have xa: "x = a" by simp
  from Cons assms(1) have n: "x \<notin> set ys" by simp
  have "ys = []"
  proof (cases ys)
    case Nil
    then show ?thesis .
  next
    case (Cons y zs)
    then have "y \<in> insert x (set ys)" by simp
    then have "y \<in> {a}" unfolding i .
    with xa have "y = x" by simp
    with Cons n show ?thesis by simp
  qed
  with Cons xa show ?thesis by simp
qed

lemma run_calls_append:
  "run_calls (xs @ ys) cli =
     (case run_calls xs cli of
        Inl e \<Rightarrow> Inl e
      | Inr (ms, cli') \<Rightarrow>
          (case run_calls ys cli' of
             Inl e \<Rightarrow> Inl e
           | Inr (ms', cli'') \<Rightarrow> Inr (ms @ ms', cli'')))"
proof (induction xs arbitrary: cli)
  case Nil
  show ?case by (simp split: sum.splits prod.splits)
next
  case (Cons a xs)
  obtain call sd where a: "a = (call, sd)" by (cases a)
  show ?case
    by (simp add: a Cons split: sum.splits prod.splits)
qed

lemma Join_present_synced:
  assumes r: "ready cli"
    and s: "joinedChannels cli = fmmap (\<lambda>_. True) (channels cli)"
    and d: "TrimSpace c \<in> fmdom' (channels cli)"
  shows "do_call sd (CallJoin [c]) cli = Inr ([], cli)"
proof -
  have D: "desired_after (CallJoin [c]) (channels cli) = channels cli"
    using d by (simp add: join_channel_present)
  have c1: "cli\<lparr>channels := channels cli\<rparr> = cli" by simp
  have "set (joins_due sd cli) = {}" "set (leaves_due sd cli) = {}"
    by (simp_all add: joins_due_set leaves_due_set s)
  then have e: "joins_due sd cli = []" "leaves_due sd cli = []" by simp_all
  have "cli\<lparr>channels := channels cli, joinedChannels := fmmap (\<lambda>_. True) (channels cli)\<rparr> = cli"
    using s by simp
  with do_call_ready [OF r, of sd "CallJoin [c]"] show ?thesis
    by (simp only: D c1 e list.map append_Nil)
qed

lemma repeat_Join_present_synced:
  assumes "ready cli"
    and "joinedChannels cli = fmmap (\<lambda>_. True) (channels cli)"
    and "TrimSpace c \<in> fmdom' (channels cli)"
  shows "run_calls (map (\<lambda>sd. (CallJoin [c], sd)) sds) cli = Inr ([], cli)"
  by (induction sds) (simp_all add: Join_present_synced [OF assms] del: do_call.simps)

lemma Join_absent_synced:
  assumes r: "ready cli"
    and s: "fmdom' (channels cli) = fmdom' (joinedChannels cli)"
    and d: "TrimSpace c \<notin> fmdom' (channels cli)"
  shows "do_call sd (CallJoin [c]) cli =
           Inr ([projr (makeJoinMessage (provider cli) (TrimSpace c))],
                cli\<lparr>channels := fmupd (TrimSpace c) True (channels cli),
                    joinedChannels := fmmap (\<lambda>_. True) (fmupd (TrimSpace c) True (channels cli))\<rparr>)"
proof -
  have D: "desired_after (CallJoin [c]) (channels cli) = fmupd (TrimSpace c) True (channels cli)"
    using d by (simp add: join_channel_absent)
  let ?c1 = "cli\<lparr>channels := fmupd (TrimSpace c) True (channels cli)\<rparr>"
  have "set (joins_due sd ?c1) = {TrimSpace c}" "set (leaves_due sd ?c1) = {}"
    using s d by (auto simp: joins_due_set leaves_due_set)
  then have e: "joins_due sd ?c1 = [TrimSpace c]" "leaves_due sd ?c1 = []"
    using joins_due_distinct [of sd ?c1] by (simp_all add: distinct_set_single)
  from do_call_ready [OF r, of sd "CallJoin [c]"] show ?thesis
    by (simp only: D e list.map append_Nil append_Nil2)
qed

lemma Leave_present_synced:
  assumes r: "ready cli"
    and s: "joinedChannels cli = fmmap (\<lambda>_. True) (channels cli)"
    and d: "TrimSpace c \<in> fmdom' (channels cli)"
  shows "do_call sd (CallLeave [c]) cli =
           Inr ([projr (makeLeaveMessage (provider cli) (TrimSpace c))],
                cli\<lparr>channels := fmdrop (TrimSpace c) (channels cli),
                    joinedChannels := fmmap (\<lambda>_. True) (fmdrop (TrimSpace c) (channels cli))\<rparr>)"
proof -
  have D: "desired_after (CallLeave [c]) (channels cli) = fmdrop (TrimSpace c) (channels cli)"
    by (simp add: leave_channel_def)
  let ?c1 = "cli\<lparr>channels := fmdrop (TrimSpace c) (channels cli)\<rparr>"
  have "set (joins_due sd ?c1) = {}" "set (leaves_due sd ?c1) = {TrimSpace c}"
    using s d by (auto simp: joins_due_set leaves_due_set)
  then have e: "joins_due sd ?c1 = []" "leaves_due sd ?c1 = [TrimSpace c]"
    using leaves_due_distinct [of sd ?c1] by (simp_all add: distinct_set_single)
  from do_call_ready [OF r, of sd "CallLeave [c]"] show ?thesis
    by (simp only: D e list.map append_Nil append_Nil2)
qed

lemma Join_no_join_of_joined:
  assumes r: "ready cli" and j: "TrimSpace c \<in> fmdom' (joinedChannels cli)"
  shows "\<exists>ms cli'. do_call sd (CallJoin [c]) cli = Inr (ms, cli') \<and> ready cli'
           \<and> provider cli' = provider cli
           \<and> TrimSpace c \<in> fmdom' (joinedChannels cli')
           \<and> makeJoinMessage (provider cli) (TrimSpace c) \<notin> Inr ` set ms"
proof -
  from r have v: "provider cli = IEX \<or> provider cli = QUODD" by (simp add: ready_def)
  let ?D = "desired_after (CallJoin [c]) (channels cli)"
  let ?c1 = "cli\<lparr>channels := ?D\<rparr>"
  let ?js = "map (\<lambda>k. projr (makeJoinMessage (provider cli) k)) (joins_due sd ?c1)"
  let ?ls = "map (\<lambda>k. projr (makeLeaveMessage (provider cli) k)) (leaves_due sd ?c1)"
  let ?c2 = "cli\<lparr>channels := ?D, joinedChannels := fmmap (\<lambda>_. True) ?D\<rparr>"
  have e: "do_call sd (CallJoin [c]) cli = Inr (?js @ ?ls, ?c2)"
    by (rule do_call_ready [OF r])
  have "TrimSpace c \<notin> set (joins_due sd ?c1)" using j by (simp add: joins_due_set)
  then have "makeJoinMessage (provider cli) (TrimSpace c) \<notin> Inr ` set ?js"
    using join_in_join_msgs [OF v, of "TrimSpace c" "joins_due sd ?c1"] by blast
  moreover have "makeJoinMessage (provider cli) (TrimSpace c) \<notin> Inr ` set ?ls"
    by (rule join_in_leave_msgs [OF v])
  ultimately have l: "makeJoinMessage (provider cli) (TrimSpace c) \<notin> Inr ` set (?js @ ?ls)"
    by (simp only: set_append image_Un Un_iff) blast
  have r2: "ready ?c2" using r by (simp add: ready_def Connected_def)
  have f: "provider ?c2 = provider cli" "TrimSpace c \<in> fmdom' (joinedChannels ?c2)"
    by (simp_all add: fmdom'_join_channel)
  show ?thesis
    by (intro exI conjI, rule e, rule r2, rule f(1), rule f(2), rule l)
qed

lemma repeat_Join_no_join_of_joined:
  assumes "ready cli" and "TrimSpace c \<in> fmdom' (joinedChannels cli)"
  shows "\<exists>ms cli'. run_calls (map (\<lambda>sd. (CallJoin [c], sd)) sds) cli = Inr (ms, cli')
           \<and> makeJoinMessage (provider cli) (TrimSpace c) \<notin> Inr ` set ms"
  using assms
proof (induction sds arbitrary: cli)
  case Nil
  then show ?case by simp
next
  case (Cons sd sds)
  from Join_no_join_of_joined [OF Cons.prems, of sd]
  obtain ms1 cli1 where s: "do_call sd (CallJoin [c]) cli = Inr (ms1, cli1)" "ready cli1"
    "provider cli1 = provider cli" "TrimSpace c \<in> fmdom' (joinedChannels cli1)"
    "makeJoinMessage (provider cli) (TrimSpace c) \<notin> Inr ` set ms1"
    by blast
  from Cons.IH [OF s(2) s(4)]
  obtain ms2 cli2 where t: "run_calls (map (\<lambda>sd. (CallJoin [c], sd)) sds) cli1 = Inr (ms2, cli2)"
    "makeJoinMessage (provider cli1) (TrimSpace c) \<notin> Inr ` set ms2"
    by blast
  have "run_calls (map (\<lambda>sd. (CallJoin [c], sd)) (sd # sds)) cli = Inr (ms1 @ ms2, cli2)"
    using s(1) t(1) by (simp del: do_call.simps)
  moreover have "makeJoinMessage (provider cli) (TrimSpace c) \<notin> Inr ` set (ms1 @ ms2)"
    using s(5) t(2) by (simp add: s(3) image_Un)
  ultimately show ?case by blast
qed

subsection \<open>Convergence\<close>

text \<open>
  C2. Take a connected client whose joined set holds exactly the channels with an
  outstanding join among the messages \<open>sent\<close> so far (as it does for a new client, with
  nothing sent, and after every call). After any sequence of \<^verbatim>\<open>Join\<close>, \<^verbatim>\<open>Leave\<close> and
  \<^verbatim>\<open>LeaveAll\<close> calls, each followed by its reconciliation pass, every call returns, the
  desired set is what the calls made of it, and the channels with an outstanding join
  among all messages sent are exactly those of the final desired set. Without any call
  there is no pass, and the same holds when the two sets agree at the start.
\<close>

theorem calls_converge:
  assumes "ready cli"
    and "{c. outstanding (provider cli) sent c} = fmdom' (joinedChannels cli)"
    and "calls = [] \<longrightarrow> fmdom' (channels cli) = fmdom' (joinedChannels cli)"
  shows "\<exists>ms cli'. run_calls calls cli = Inr (ms, cli')
           \<and> channels cli' = foldl (\<lambda>m x. desired_after (fst x) m) (channels cli) calls
           \<and> {c. outstanding (provider cli) (sent @ ms) c} = fmdom' (channels cli')"
  using run_calls_converges [OF assms] by blast

theorem calls_converge_witness:
  "ready live_client
   \<and> {c. outstanding (provider live_client) [] c} = fmdom' (joinedChannels live_client)
   \<and> (\<exists>ms cli'.
         run_calls [(CallJoin [''AAPL'', ''MSFT'', ''GE''], no_seeds),
                    (CallLeave [''AAPL''], no_seeds)] live_client = Inr (ms, cli')
         \<and> fmdom' (channels cli') = {''MSFT'', ''GE''}
         \<and> {c. outstanding (provider live_client) ([] @ ms) c} = fmdom' (channels cli'))"
proof -
  let ?calls = "[(CallJoin [''AAPL'', ''MSFT'', ''GE''], no_seeds), (CallLeave [''AAPL''], no_seeds)]"
  have r: "ready live_client"
    by (simp add: ready_def Connected_def live_client_def new_client_def New_def)
  have j: "joinedChannels live_client = fmempty" "channels live_client = fmempty"
    by (simp_all add: live_client_def new_client_def New_def)
  have o: "{c. outstanding (provider live_client) [] c} = fmdom' (joinedChannels live_client)"
    by (simp add: j)
  have n: "?calls = [] \<longrightarrow> fmdom' (channels live_client) = fmdom' (joinedChannels live_client)"
    by simp
  have d: "fmdom' (foldl (\<lambda>m x. desired_after (fst x) m) (channels live_client) ?calls)
             = {''MSFT'', ''GE''}"
    by (auto simp: j fmdom'_join_channel fmdom'_leave_channel TrimSpace_tickers)
  from calls_converge [OF r o n]
  obtain ms cli' where e: "run_calls ?calls live_client = Inr (ms, cli')"
    "channels cli' = foldl (\<lambda>m x. desired_after (fst x) m) (channels live_client) ?calls"
    "{c. outstanding (provider live_client) ([] @ ms) c} = fmdom' (channels cli')"
    by blast
  from e(2) d have "fmdom' (channels cli') = {''MSFT'', ''GE''}" by simp
  with e(1,3) have f: "run_calls ?calls live_client = Inr (ms, cli')
         \<and> fmdom' (channels cli') = {''MSFT'', ''GE''}
         \<and> {c. outstanding (provider live_client) ([] @ ms) c} = fmdom' (channels cli')"
    by simp
  show ?thesis
    by (rule conjI, rule r, rule conjI, rule o, intro exI, rule f)
qed

subsection \<open>Facts about the example states and about single calls\<close>

lemma range_order_any:
  assumes "distinct ks" and "set ks = fmdom' m"
  shows "range_order ks m = ks"
proof -
  from assms(2) have "fset (fset_of_list ks) = fset (fmdom m)"
    by (simp add: fset_of_list.rep_eq fmdom'_alt_def)
  then have "fset_of_list ks = fmdom m" by (simp add: fset_inject)
  with assms(1) show ?thesis by (simp add: range_order_def)
qed

lemma live_ready: "ready live_client"
  by (simp add: ready_def Connected_def live_client_def new_client_def New_def)

lemma live_fields:
  "provider live_client = IEX" "channels live_client = fmempty"
  "joinedChannels live_client = fmempty"
  by (simp_all add: live_client_def new_client_def New_def)

lemma new_fields:
  "Connected new_client = False" "channels new_client = fmempty"
  "joinedChannels new_client = fmempty"
  by (simp_all add: Connected_def new_client_def New_def)

lemma desired_after_dom:
  "fmdom' (desired_after call m) =
     (case call of
        CallJoin chs \<Rightarrow> fmdom' m \<union> TrimSpace ` set chs
      | CallLeave chs \<Rightarrow> fmdom' m - TrimSpace ` set chs
      | CallLeaveAll \<Rightarrow> {})"
  by (cases call) (simp_all add: fmdom'_fold_join fmdom'_fold_leave)

lemma do_call_channels:
  assumes "Connected cli = False \<or> ready cli"
  shows "\<exists>ms cli'. do_call sd call cli = Inr (ms, cli')
           \<and> channels cli' = desired_after call (channels cli)"
proof (cases "ready cli")
  case True
  from do_call_ready [OF True, of sd call] show ?thesis by simp
next
  case False
  with assms have "Connected cli = False" by blast
  from do_call_not_connected [OF this, of sd call] show ?thesis by simp
qed

lemma Disconnect_not_connected:
  "Connected cli = False \<Longrightarrow> Disconnect cli = Inr (None, [], cli)"
  by (simp add: Disconnect_def)

lemma Disconnect_go_not_connected:
  "connected cli = False \<Longrightarrow> Disconnect_go r cli = Inr (None, [], cli)"
  by (simp add: Disconnect_go_def)

lemma Disconnect_twice:
  assumes "Disconnect cli = Inr (e, ops, cli')"
  shows "Disconnect cli' = Inr (None, [], cli')"
proof (cases "Connected cli")
  case False
  with assms have "cli' = cli" by (simp add: Disconnect_def)
  with False show ?thesis by (simp add: Disconnect_def)
next
  case True
  show ?thesis
  proof (cases "closing cli")
    case c: True
    with True assms have "cli' = cli" by (simp add: Disconnect_def)
    with True c show ?thesis by (simp add: Disconnect_def)
  next
    case c: False
    with True assms have "ws cli' = None"
      by (auto simp: Disconnect_def senderTeardown_def
            split: sum.splits option.splits prod.splits)
    then show ?thesis by (simp add: Disconnect_def Connected_def)
  qed
qed

lemma IEX_sent_shape:
  assumes "ready cli" and "provider cli = IEX"
    and "refreshChannels sd cli = Inr (ms, cli')" and "m \<in> set ms"
  shows "\<exists>c. m = [(''topic'', JString (parseTopic c)), (''event'', JString ''phx_join''),
                    (''payload'', JObject []), (''ref'', JNull)]
             \<or> m = [(''topic'', JString (parseTopic c)), (''event'', JString ''phx_leave''),
                     (''payload'', JObject []), (''ref'', JNull)]"
proof -
  from refreshChannels_ready [OF assms(1), of sd] assms(3)
  have "ms = map (\<lambda>k. projr (makeJoinMessage IEX k)) (joins_due sd cli)
               @ map (\<lambda>k. projr (makeLeaveMessage IEX k)) (leaves_due sd cli)"
    by (simp add: assms(2))
  with assms(4) have "(\<exists>k. m = projr (makeJoinMessage IEX k)) \<or> (\<exists>k. m = projr (makeLeaveMessage IEX k))"
    by auto
  then show ?thesis
    by (auto simp: makeJoinMessage_IEX makeLeaveMessage_IEX)
qed

subsection \<open>Repeated Join\<close>

text \<open>
  C3. On a connected client, calling \<^verbatim>\<open>Join(c)\<close> any number \<open>n \<ge> 1\<close> of times while the
  (trimmed) channel is already in the joined set sends no join message for it, whatever
  else the passes send. Starting from a reconciled client that does not have the
  channel, \<open>n \<ge> 1\<close> calls of \<^verbatim>\<open>Join(c)\<close> followed by \<^verbatim>\<open>Leave(c)\<close> send exactly two messages:
  one join message and then one leave message for the channel, and the desired set is
  back to what it was.
\<close>

theorem repeated_Join_one_join_one_leave:
  assumes "ready cli" and "sds \<noteq> []"
  shows "(TrimSpace c \<in> fmdom' (joinedChannels cli) \<longrightarrow>
            (\<exists>ms cli'. run_calls (map (\<lambda>sd. (CallJoin [c], sd)) sds) cli = Inr (ms, cli')
               \<and> makeJoinMessage (provider cli) (TrimSpace c) \<notin> Inr ` set ms))
         \<and> (fmdom' (channels cli) = fmdom' (joinedChannels cli)
              \<and> TrimSpace c \<notin> fmdom' (channels cli) \<longrightarrow>
            (\<exists>jm lm cli'.
               run_calls (map (\<lambda>sd. (CallJoin [c], sd)) sds @ [(CallLeave [c], sd')]) cli
                 = Inr ([jm, lm], cli')
               \<and> makeJoinMessage (provider cli) (TrimSpace c) = Inr jm
               \<and> makeLeaveMessage (provider cli) (TrimSpace c) = Inr lm
               \<and> channels cli' = channels cli))"
proof (intro conjI impI)
  assume "TrimSpace c \<in> fmdom' (joinedChannels cli)"
  with assms(1) show "\<exists>ms cli'. run_calls (map (\<lambda>sd. (CallJoin [c], sd)) sds) cli = Inr (ms, cli')
               \<and> makeJoinMessage (provider cli) (TrimSpace c) \<notin> Inr ` set ms"
    by (rule repeat_Join_no_join_of_joined)
next
  assume a: "fmdom' (channels cli) = fmdom' (joinedChannels cli)
              \<and> TrimSpace c \<notin> fmdom' (channels cli)"
  from assms(1) have v: "provider cli = IEX \<or> provider cli = QUODD" by (simp add: ready_def)
  from assms(2) obtain sd1 rest where sds: "sds = sd1 # rest" by (cases sds) auto
  let ?k = "TrimSpace c"
  let ?D1 = "fmupd ?k True (channels cli)"
  let ?c1 = "cli\<lparr>channels := ?D1, joinedChannels := fmmap (\<lambda>_. True) ?D1\<rparr>"
  let ?D2 = "fmdrop ?k (channels ?c1)"
  let ?c2 = "?c1\<lparr>channels := ?D2, joinedChannels := fmmap (\<lambda>_. True) ?D2\<rparr>"
  let ?jm = "projr (makeJoinMessage (provider cli) ?k)"
  let ?lm = "projr (makeLeaveMessage (provider cli) ?k)"
  from a have a1: "fmdom' (channels cli) = fmdom' (joinedChannels cli)"
    by (rule conjunct1)
  from a have a2: "TrimSpace c \<notin> fmdom' (channels cli)"
    by (rule conjunct2)
  have s1: "do_call sd1 (CallJoin [c]) cli = Inr ([?jm], ?c1)"
    by (rule Join_absent_synced [OF assms(1) a1 a2])
  have r1: "ready ?c1" using assms(1) by (simp add: ready_def Connected_def)
  have j1: "joinedChannels ?c1 = fmmap (\<lambda>_. True) (channels ?c1)" by simp
  have k1: "?k \<in> fmdom' (channels ?c1)" by simp
  have s2: "run_calls (map (\<lambda>sd. (CallJoin [c], sd)) rest) ?c1 = Inr ([], ?c1)"
    by (rule repeat_Join_present_synced [OF r1 j1 k1])
  have s3: "do_call sd' (CallLeave [c]) ?c1 = Inr ([projr (makeLeaveMessage (provider ?c1) ?k)], ?c2)"
    by (rule Leave_present_synced [OF r1 j1 k1])
  have p1: "provider ?c1 = provider cli" by simp
  have "run_calls (map (\<lambda>sd. (CallJoin [c], sd)) sds @ [(CallLeave [c], sd')]) cli
          = Inr ([?jm, ?lm], ?c2)"
    unfolding sds run_calls_append
    using s1 s2 s3 by (simp add: p1 del: do_call.simps)
  moreover have "makeJoinMessage (provider cli) ?k = Inr ?jm"
    by (rule makeJoinMessage_Inr [OF v])
  moreover have "makeLeaveMessage (provider cli) ?k = Inr ?lm"
    by (rule makeLeaveMessage_Inr [OF v])
  moreover have "channels ?c2 = channels cli"
    using a2 by (simp add: fmdrop_fmupd_same fmdrop_idle')
  ultimately show "\<exists>jm lm cli'.
               run_calls (map (\<lambda>sd. (CallJoin [c], sd)) sds @ [(CallLeave [c], sd')]) cli
                 = Inr ([jm, lm], cli')
               \<and> makeJoinMessage (provider cli) (TrimSpace c) = Inr jm
               \<and> makeLeaveMessage (provider cli) (TrimSpace c) = Inr lm
               \<and> channels cli' = channels cli"
    by blast
qed

theorem repeated_Join_one_join_one_leave_witness:
  "ready (live_client\<lparr>channels := fmupd ''AAPL'' True fmempty,
                      joinedChannels := fmupd ''AAPL'' True fmempty\<rparr>)
   \<and> [no_seeds, no_seeds, no_seeds] \<noteq> []
   \<and> TrimSpace '' AAPL '' \<in> fmdom' (fmupd ''AAPL'' True fmempty)
   \<and> (\<exists>ms cli'.
         run_calls (map (\<lambda>sd. (CallJoin ['' AAPL ''], sd)) [no_seeds, no_seeds, no_seeds])
           (live_client\<lparr>channels := fmupd ''AAPL'' True fmempty,
                        joinedChannels := fmupd ''AAPL'' True fmempty\<rparr>) = Inr (ms, cli')
         \<and> makeJoinMessage IEX ''AAPL'' \<notin> Inr ` set ms)
   \<and> ready live_client
   \<and> fmdom' (channels live_client) = fmdom' (joinedChannels live_client)
   \<and> TrimSpace '' AAPL '' \<notin> fmdom' (channels live_client)
   \<and> (\<exists>jm lm cli'.
         run_calls (map (\<lambda>sd. (CallJoin ['' AAPL ''], sd)) [no_seeds, no_seeds, no_seeds]
                      @ [(CallLeave ['' AAPL ''], no_seeds)]) live_client = Inr ([jm, lm], cli')
         \<and> makeJoinMessage IEX ''AAPL'' = Inr jm
         \<and> makeLeaveMessage IEX ''AAPL'' = Inr lm
         \<and> channels cli' = fmempty)"
proof -
  let ?c = "live_client\<lparr>channels := fmupd ''AAPL'' True fmempty,
                         joinedChannels := fmupd ''AAPL'' True fmempty\<rparr>"
  let ?sds = "[no_seeds, no_seeds, no_seeds]"
  have t: "TrimSpace '' AAPL '' = ''AAPL''"
    by (simp add: TrimSpace_def TrimLeft_def TrimRight_def strip.simps lead_def space_runes_def)
  have r: "ready ?c"
    using live_ready by (simp add: ready_def Connected_def)
  have n: "?sds \<noteq> []" by simp
  have p: "provider ?c = IEX" by (simp add: live_fields)
  have j: "TrimSpace '' AAPL '' \<in> fmdom' (joinedChannels ?c)" by (simp add: t)
  have j': "TrimSpace '' AAPL '' \<in> fmdom' (fmupd ''AAPL'' True fmempty)" by (simp add: t)
  have "\<exists>ms cli'.
         run_calls (map (\<lambda>sd. (CallJoin ['' AAPL ''], sd)) ?sds) ?c = Inr (ms, cli')
         \<and> makeJoinMessage (provider ?c) (TrimSpace '' AAPL '') \<notin> Inr ` set ms"
    by (rule mp [OF conjunct1 [OF repeated_Join_one_join_one_leave [OF r n]]], rule j)
  then have A: "\<exists>ms cli'.
         run_calls (map (\<lambda>sd. (CallJoin ['' AAPL ''], sd)) ?sds) ?c = Inr (ms, cli')
         \<and> makeJoinMessage IEX ''AAPL'' \<notin> Inr ` set ms"
    by (simp only: p t)
  have s: "fmdom' (channels live_client) = fmdom' (joinedChannels live_client)"
    by (simp add: live_fields)
  have d: "TrimSpace '' AAPL '' \<notin> fmdom' (channels live_client)"
    by (simp add: live_fields)
  have "\<exists>jm lm cli'.
         run_calls (map (\<lambda>sd. (CallJoin ['' AAPL ''], sd)) ?sds
                      @ [(CallLeave ['' AAPL ''], no_seeds)]) live_client = Inr ([jm, lm], cli')
         \<and> makeJoinMessage (provider live_client) (TrimSpace '' AAPL '') = Inr jm
         \<and> makeLeaveMessage (provider live_client) (TrimSpace '' AAPL '') = Inr lm
         \<and> channels cli' = channels live_client"
    by (rule mp [OF conjunct2 [OF repeated_Join_one_join_one_leave [OF live_ready n]]],
        rule conjI [OF s d])
  then have B: "\<exists>jm lm cli'.
         run_calls (map (\<lambda>sd. (CallJoin ['' AAPL ''], sd)) ?sds
                      @ [(CallLeave ['' AAPL ''], no_seeds)]) live_client = Inr ([jm, lm], cli')
         \<and> makeJoinMessage IEX ''AAPL'' = Inr jm
         \<and> makeLeaveMessage IEX ''AAPL'' = Inr lm
         \<and> channels cli' = fmempty"
    by (simp only: live_fields t)
  from r n j' A live_ready s d B show ?thesis by (intro conjI)
qed

subsection \<open>Calls on a client that is not connected\<close>

text \<open>
  C8. A \<^verbatim>\<open>Join\<close>, \<^verbatim>\<open>Leave\<close> or \<^verbatim>\<open>LeaveAll\<close> call on a client that is not connected returns
  with no message sent and with the client unchanged except for \<^verbatim>\<open>channels\<close>, which gains
  the trimmed arguments of \<^verbatim>\<open>Join\<close>, loses those of \<^verbatim>\<open>Leave\<close>, or is emptied by \<^verbatim>\<open>LeaveAll\<close>;
  \<^verbatim>\<open>joinedChannels\<close> and every other field stay as they were. A pass on a connected
  client that holds this desired set returns and sets the joined set from it.
\<close>

theorem calls_while_disconnected:
  assumes "Connected cli = False"
  shows "\<exists>D'. do_call sd call cli = Inr ([], cli\<lparr>channels := D'\<rparr>)
           \<and> fmdom' D' =
               (case call of
                  CallJoin chs \<Rightarrow> fmdom' (channels cli) \<union> TrimSpace ` set chs
                | CallLeave chs \<Rightarrow> fmdom' (channels cli) - TrimSpace ` set chs
                | CallLeaveAll \<Rightarrow> {})
           \<and> (\<forall>cli2. ready cli2 \<and> channels cli2 = D' \<longrightarrow>
                 (\<exists>ms. refreshChannels sd2 cli2 =
                    Inr (ms, cli2\<lparr>joinedChannels := fmmap (\<lambda>_. True) D'\<rparr>)))"
proof -
  let ?D = "desired_after call (channels cli)"
  have a: "do_call sd call cli = Inr ([], cli\<lparr>channels := ?D\<rparr>)"
    by (rule do_call_not_connected [OF assms])
  have b: "fmdom' ?D =
               (case call of
                  CallJoin chs \<Rightarrow> fmdom' (channels cli) \<union> TrimSpace ` set chs
                | CallLeave chs \<Rightarrow> fmdom' (channels cli) - TrimSpace ` set chs
                | CallLeaveAll \<Rightarrow> {})"
    by (rule desired_after_dom)
  have c: "\<exists>ms. refreshChannels sd2 cli2 =
      Inr (ms, cli2\<lparr>joinedChannels := fmmap (\<lambda>_. True) ?D\<rparr>)"
    if "ready cli2 \<and> channels cli2 = ?D" for cli2
  proof -
    from that have r: "ready cli2" and d: "channels cli2 = ?D" by (rule conjunct1, rule conjunct2)
    from refreshChannels_ready [OF r, of sd2] show ?thesis
      unfolding d by (rule exI)
  qed
  from a b c show ?thesis by blast
qed

theorem calls_while_disconnected_witness:
  "Connected new_client = False
   \<and> (\<exists>D'. do_call no_seeds (CallJoin ['' AAPL'']) new_client
              = Inr ([], new_client\<lparr>channels := D'\<rparr>)
         \<and> fmdom' D' = {''AAPL''})"
proof -
  have t: "TrimSpace '' AAPL'' = ''AAPL''"
    by (simp add: TrimSpace_def TrimLeft_def TrimRight_def strip.simps lead_def space_runes_def)
  from calls_while_disconnected [OF new_fields(1), where sd = no_seeds
      and call = "CallJoin ['' AAPL'']" and ?sd2.0 = no_seeds]
  obtain D' where d: "do_call no_seeds (CallJoin ['' AAPL'']) new_client
              = Inr ([], new_client\<lparr>channels := D'\<rparr>)"
     "fmdom' D' = (case CallJoin ['' AAPL''] of
                  CallJoin chs \<Rightarrow> fmdom' (channels new_client) \<union> TrimSpace ` set chs
                | CallLeave chs \<Rightarrow> fmdom' (channels new_client) - TrimSpace ` set chs
                | CallLeaveAll \<Rightarrow> {})"
    by blast
  from d(2) have "fmdom' D' = {''AAPL''}" by (simp add: new_fields t)
  with d(1) have "\<exists>D'. do_call no_seeds (CallJoin ['' AAPL'']) new_client
              = Inr ([], new_client\<lparr>channels := D'\<rparr>)
         \<and> fmdom' D' = {''AAPL''}"
    by blast
  with new_fields(1) show ?thesis by (rule conjI)
qed

subsection \<open>Leave of a channel that was never joined\<close>

text \<open>
  C9. If the (trimmed) channel \<open>c\<close> is neither in the desired set nor in the joined set,
  \<^verbatim>\<open>Leave(c)\<close> returns, leaves the desired set as it is and sends no leave message for
  \<open>c\<close>; and no later call sends one either, as long as no later call joins \<open>c\<close>: a pass
  sends leave messages only for channels of the joined set. The client is either not connected or
  connected with its queue open and a provider of the two constants.
\<close>

theorem Leave_never_joined_is_noop:
  assumes "Connected cli = False \<or> ready cli"
    and "TrimSpace c \<notin> fmdom' (channels cli)"
    and "TrimSpace c \<notin> fmdom' (joinedChannels cli)"
    and "\<forall>x\<in>set rest. \<not> joins_channel (fst x) (TrimSpace c)"
  shows "(\<exists>ms cli'. Leave sd [c] cli = Inr (ms, cli') \<and> channels cli' = channels cli
            \<and> makeLeaveMessage (provider cli) (TrimSpace c) \<notin> Inr ` set ms)
         \<and> (\<exists>ms cli'. run_calls ((CallLeave [c], sd) # rest) cli = Inr (ms, cli')
               \<and> makeLeaveMessage (provider cli) (TrimSpace c) \<notin> Inr ` set ms)"
proof
  have n: "\<not> joins_channel (CallLeave [c]) (TrimSpace c)" by simp
  from do_call_channels [OF assms(1), of sd "CallLeave [c]"]
  obtain ms cli' where e: "do_call sd (CallLeave [c]) cli = Inr (ms, cli')"
    "channels cli' = desired_after (CallLeave [c]) (channels cli)"
    by blast
  from do_call_no_leave [OF assms(1,2,3) n, of sd] e(1)
  have l: "makeLeaveMessage (provider cli) (TrimSpace c) \<notin> Inr ` set ms"
    by auto
  from e(2) assms(2) have "channels cli' = channels cli"
    by (simp add: leave_channel_absent)
  with e(1) l show "\<exists>ms cli'. Leave sd [c] cli = Inr (ms, cli') \<and> channels cli' = channels cli
            \<and> makeLeaveMessage (provider cli) (TrimSpace c) \<notin> Inr ` set ms"
    by simp
next
  from assms(4) have "\<forall>x\<in>set ((CallLeave [c], sd) # rest). \<not> joins_channel (fst x) (TrimSpace c)"
    by simp
  from run_calls_no_leave [OF assms(1,2,3) this]
  show "\<exists>ms cli'. run_calls ((CallLeave [c], sd) # rest) cli = Inr (ms, cli')
               \<and> makeLeaveMessage (provider cli) (TrimSpace c) \<notin> Inr ` set ms" .
qed

theorem Leave_never_joined_is_noop_witness:
  "ready live_client
   \<and> TrimSpace ''AAPL'' \<notin> fmdom' (channels live_client)
   \<and> TrimSpace ''AAPL'' \<notin> fmdom' (joinedChannels live_client)
   \<and> \<not> joins_channel (CallJoin [''GE'']) (TrimSpace ''AAPL'')
   \<and> \<not> joins_channel CallLeaveAll (TrimSpace ''AAPL'')
   \<and> (\<exists>ms cli'. Leave no_seeds [''AAPL''] live_client = Inr (ms, cli')
         \<and> channels cli' = fmempty
         \<and> makeLeaveMessage IEX ''AAPL'' \<notin> Inr ` set ms)
   \<and> (\<exists>ms cli'.
         run_calls [(CallLeave [''AAPL''], no_seeds), (CallJoin [''GE''], no_seeds),
                    (CallLeaveAll, no_seeds)] live_client = Inr (ms, cli')
         \<and> makeLeaveMessage IEX ''AAPL'' \<notin> Inr ` set ms)"
proof -
  have a: "Connected live_client = False \<or> ready live_client"
    using live_ready by simp
  have b: "TrimSpace ''AAPL'' \<notin> fmdom' (channels live_client)"
    "TrimSpace ''AAPL'' \<notin> fmdom' (joinedChannels live_client)"
    by (simp_all add: live_fields)
  have c: "\<forall>x\<in>set [(CallJoin [''GE''], no_seeds), (CallLeaveAll, no_seeds)].
         \<not> joins_channel (fst x) (TrimSpace ''AAPL'')"
    by (simp add: TrimSpace_tickers)
  note T = Leave_never_joined_is_noop [OF a b c, of no_seeds]
  from conjunct1 [OF T]
  have d: "\<exists>ms cli'. Leave no_seeds [''AAPL''] live_client = Inr (ms, cli')
         \<and> channels cli' = fmempty
         \<and> makeLeaveMessage IEX ''AAPL'' \<notin> Inr ` set ms"
    by (simp only: live_fields TrimSpace_tickers)
  from conjunct2 [OF T]
  have e: "\<exists>ms cli'.
         run_calls [(CallLeave [''AAPL''], no_seeds), (CallJoin [''GE''], no_seeds),
                    (CallLeaveAll, no_seeds)] live_client = Inr (ms, cli')
         \<and> makeLeaveMessage IEX ''AAPL'' \<notin> Inr ` set ms"
    by (simp only: live_fields TrimSpace_tickers)
  have f: "\<not> joins_channel (CallJoin [''GE'']) (TrimSpace ''AAPL'')"
    "\<not> joins_channel CallLeaveAll (TrimSpace ''AAPL'')"
    by (simp_all add: TrimSpace_tickers)
  from live_ready b f d e show ?thesis by (intro conjI)
qed

subsection \<open>Trimmed channel names\<close>

text \<open>
  C7, as stated, fails: \<^verbatim>\<open>Join\<close> with an argument of two spaces on a connected IEX client
  stores the empty string in the desired set and sends a join message for it (topic
  \<^verbatim>\<open>iex:securities:\<close>); the code has no check for an empty name.
\<close>

theorem Join_blank_joins_empty_channel:
  "Join \<lparr>seed_join = [[]], seed_leave = [], seed_copy = [[]]\<rparr> [''  ''] live_client
     = Inr ([[(''topic'', JString ''iex:securities:''), (''event'', JString ''phx_join''),
              (''payload'', JObject []), (''ref'', JNull)]],
            live_client\<lparr>channels := fmupd [] True fmempty,
                         joinedChannels := fmupd [] True fmempty\<rparr>)"
proof -
  have r: "range_order [[]] (fmupd [] True fmempty) = [[]]"
    by (simp add: range_order_def)
  have e: "range_order [] fmempty = []"
    by (simp add: range_order_def)
  have q: "q live_client = ChanOpen" "ws live_client = Some (Conn 0)"
    by (simp_all add: live_client_def)
  have m: "makeJoinMessage IEX [] = Inr [(''topic'', JString ''iex:securities:''),
      (''event'', JString ''phx_join''), (''payload'', JObject []), (''ref'', JNull)]"
    by (simp add: makeJoinMessage_IEX parseTopic_def)
  show ?thesis
    by (simp add: Join_def join_channel_def TrimSpace_blank refreshChannels_def live_fields q
          r e m chan_send_def copy_loop_def Connected_def)
qed

text \<open>
  C7, amended. Every call returns; \<^verbatim>\<open>Join\<close> adds the trimmed arguments to the desired set
  and \<^verbatim>\<open>Leave\<close> removes the trimmed arguments from it, so membership is tested on trimmed
  names; and if every channel of the desired set is trimmed before a call (none is in a
  new client), every channel is trimmed after it. A trimmed name may be empty.
\<close>

theorem desired_channels_trimmed:
  assumes "Connected cli = False \<or> ready cli"
    and "\<forall>k\<in>fmdom' (channels cli). trimmed k"
  shows "\<exists>ms cli'. do_call sd call cli = Inr (ms, cli')
           \<and> fmdom' (channels cli') =
               (case call of
                  CallJoin chs \<Rightarrow> fmdom' (channels cli) \<union> TrimSpace ` set chs
                | CallLeave chs \<Rightarrow> fmdom' (channels cli) - TrimSpace ` set chs
                | CallLeaveAll \<Rightarrow> {})
           \<and> (\<forall>k\<in>fmdom' (channels cli'). trimmed k)"
proof -
  from do_call_channels [OF assms(1), of sd call]
  obtain ms cli' where e: "do_call sd call cli = Inr (ms, cli')"
    "channels cli' = desired_after call (channels cli)"
    by blast
  have d: "fmdom' (channels cli') =
               (case call of
                  CallJoin chs \<Rightarrow> fmdom' (channels cli) \<union> TrimSpace ` set chs
                | CallLeave chs \<Rightarrow> fmdom' (channels cli) - TrimSpace ` set chs
                | CallLeaveAll \<Rightarrow> {})"
    by (simp only: e(2) desired_after_dom)
  have "\<forall>k\<in>fmdom' (channels cli'). trimmed k"
    unfolding d using assms(2) trimmed_TrimSpace by (cases call) auto
  with e(1) d show ?thesis by blast
qed

theorem desired_channels_trimmed_witness:
  "ready live_client
   \<and> fmdom' (channels live_client) = {}
   \<and> (\<exists>ms cli'. do_call no_seeds (CallJoin ['' AAPL '', ''  '']) live_client = Inr (ms, cli')
         \<and> fmdom' (channels cli') = {''AAPL'', []}
         \<and> (\<forall>k\<in>fmdom' (channels cli'). trimmed k))"
proof -
  have t: "TrimSpace '' AAPL '' = ''AAPL''"
    by (simp add: TrimSpace_def TrimLeft_def TrimRight_def strip.simps lead_def space_runes_def)
  have a: "Connected live_client = False \<or> ready live_client"
    using live_ready by simp
  have b: "\<forall>k\<in>fmdom' (channels live_client). trimmed k"
    by (simp add: live_fields)
  have "fmdom' (channels live_client) \<union> TrimSpace ` set ['' AAPL '', ''  ''] = {''AAPL'', []}"
    by (simp add: live_fields t TrimSpace_blank)
  with desired_channels_trimmed [OF a b, of no_seeds "CallJoin ['' AAPL '', ''  '']"]
  have c: "\<exists>ms cli'. do_call no_seeds (CallJoin ['' AAPL '', ''  '']) live_client = Inr (ms, cli')
         \<and> fmdom' (channels cli') = {''AAPL'', []}
         \<and> (\<forall>k\<in>fmdom' (channels cli'). trimmed k)"
    by (simp del: do_call.simps)
  have e: "fmdom' (channels live_client) = {}"
    by (simp add: live_fields)
  from live_ready e c show ?thesis by (intro conjI)
qed

subsection \<open>Unknown providers\<close>

text \<open>
  C5, as stated, fails: \<^verbatim>\<open>New\<close> accepts the provider \<^verbatim>\<open>nyse\<close>, and building the auth URL or
  a join message for it panics.
\<close>

theorem unknown_provider_accepted_by_New:
  "provider (New ''user'' ''secret'' ''nyse'') = ''nyse''
   \<and> makeAuthURL (provider (New ''user'' ''secret'' ''nyse''))
       = Inl (Panic ''A value that does not exist was specified.'')
   \<and> makeJoinMessage (provider (New ''user'' ''secret'' ''nyse'')) ''AAPL''
       = Inl (Panic ''A value that does not exist was specified.'')"
  by (simp add: New_def makeAuthURL_def makeJoinMessage_def IEX_def QUODD_def no_such_value_def)

text \<open>
  C5, amended. For every provider other than the two constants, \<^verbatim>\<open>New\<close> stores it
  unchecked, and the failure comes at run time, as the panic
  \<^verbatim>\<open>A value that does not exist was specified.\<close>, from each function of the provider adapter:
  \<^verbatim>\<open>makeAuthURL\<close> (the first thing \<^verbatim>\<open>Connect\<close> computes), \<^verbatim>\<open>makeSoketURL\<close>, \<^verbatim>\<open>makeJoinMessage\<close>,
  \<^verbatim>\<open>makeLeaveMessage\<close> and \<^verbatim>\<open>makeHeartbeatMessage\<close>.
\<close>

theorem unknown_provider_panics_at_use:
  assumes "p \<noteq> IEX" and "p \<noteq> QUODD"
  shows "provider (New user pass p) = p
         \<and> makeAuthURL p = Inl (Panic ''A value that does not exist was specified.'')
         \<and> makeSoketURL p tok = Inl (Panic ''A value that does not exist was specified.'')
         \<and> makeJoinMessage p c = Inl (Panic ''A value that does not exist was specified.'')
         \<and> makeLeaveMessage p c = Inl (Panic ''A value that does not exist was specified.'')
         \<and> makeHeartbeatMessage p now = Inl (Panic ''A value that does not exist was specified.'')"
  using assms
  by (simp add: New_def makeAuthURL_def makeSoketURL_def makeJoinMessage_def
        makeLeaveMessage_def makeHeartbeatMessage_def no_such_value_def)

theorem unknown_provider_panics_at_use_witness:
  "''nyse'' \<noteq> IEX \<and> ''nyse'' \<noteq> QUODD
   \<and> provider (New ''user'' ''secret'' ''nyse'') = ''nyse''
   \<and> makeSoketURL ''nyse'' ''t0'' = Inl (Panic ''A value that does not exist was specified.'')
   \<and> makeHeartbeatMessage ''nyse'' 0 = Inl (Panic ''A value that does not exist was specified.'')"
proof -
  have a: "''nyse'' \<noteq> IEX" and b: "''nyse'' \<noteq> QUODD"
    by (simp_all add: IEX_def QUODD_def)
  from unknown_provider_panics_at_use [OF a b, of "''user''" "''secret''" "''t0''" _ 0] a b
  show ?thesis by simp
qed

subsection \<open>Messages of the IEX provider\<close>

text \<open>
  C6. For the provider IEX, a join, leave or heartbeat message has exactly the four
  keys \<^verbatim>\<open>topic\<close>, \<^verbatim>\<open>event\<close>, \<^verbatim>\<open>payload\<close> and \<^verbatim>\<open>ref\<close>, with an empty payload and a null \<^verbatim>\<open>ref\<close>; the
  event is \<^verbatim>\<open>phx_join\<close>, \<^verbatim>\<open>phx_leave\<close> or \<^verbatim>\<open>heartbeat\<close>. The topic of a join or leave message
  comes from the channel name: \<^verbatim>\<open>$lobby\<close> and \<^verbatim>\<open>$lobby_last_price\<close> give the two fixed topics,
  any other name \<open>c\<close> gives \<^verbatim>\<open>iex:securities:\<close> followed by \<open>c\<close>. Every message that a
  reconciliation pass of a connected IEX client sends has this shape, with the event
  \<^verbatim>\<open>phx_join\<close> or \<^verbatim>\<open>phx_leave\<close>.
\<close>

theorem IEX_message_shape:
  "makeJoinMessage IEX c =
     Inr [(''topic'', JString (parseTopic c)), (''event'', JString ''phx_join''),
          (''payload'', JObject []), (''ref'', JNull)]
   \<and> makeLeaveMessage IEX c =
     Inr [(''topic'', JString (parseTopic c)), (''event'', JString ''phx_leave''),
          (''payload'', JObject []), (''ref'', JNull)]
   \<and> makeHeartbeatMessage IEX now =
     Inr [(''topic'', JString ''phoenix''), (''event'', JString ''heartbeat''),
          (''payload'', JObject []), (''ref'', JNull)]
   \<and> parseTopic ''$lobby'' = ''iex:lobby''
   \<and> parseTopic ''$lobby_last_price'' = ''iex:lobby:last_price''
   \<and> (c \<noteq> ''$lobby'' \<and> c \<noteq> ''$lobby_last_price'' \<longrightarrow> parseTopic c = ''iex:securities:'' @ c)
   \<and> (ready cli \<and> provider cli = IEX \<and> refreshChannels sd cli = Inr (ms, cli') \<and> m \<in> set ms
        \<longrightarrow> (\<exists>k. m = [(''topic'', JString (parseTopic k)), (''event'', JString ''phx_join''),
                         (''payload'', JObject []), (''ref'', JNull)]
                  \<or> m = [(''topic'', JString (parseTopic k)), (''event'', JString ''phx_leave''),
                          (''payload'', JObject []), (''ref'', JNull)]))"
proof -
  have "makeJoinMessage IEX c =
     Inr [(''topic'', JString (parseTopic c)), (''event'', JString ''phx_join''),
          (''payload'', JObject []), (''ref'', JNull)]"
    by (rule makeJoinMessage_IEX)
  moreover have "makeLeaveMessage IEX c =
     Inr [(''topic'', JString (parseTopic c)), (''event'', JString ''phx_leave''),
          (''payload'', JObject []), (''ref'', JNull)]"
    by (rule makeLeaveMessage_IEX)
  moreover have "makeHeartbeatMessage IEX now =
     Inr [(''topic'', JString ''phoenix''), (''event'', JString ''heartbeat''),
          (''payload'', JObject []), (''ref'', JNull)]"
    by (simp add: makeHeartbeatMessage_def)
  moreover have "parseTopic ''$lobby'' = ''iex:lobby''"
    "parseTopic ''$lobby_last_price'' = ''iex:lobby:last_price''"
    by (simp_all add: parseTopic_def)
  moreover have "c \<noteq> ''$lobby'' \<and> c \<noteq> ''$lobby_last_price'' \<longrightarrow> parseTopic c = ''iex:securities:'' @ c"
    by (simp add: parseTopic_def)
  moreover have "ready cli \<and> provider cli = IEX \<and> refreshChannels sd cli = Inr (ms, cli') \<and> m \<in> set ms
        \<longrightarrow> (\<exists>k. m = [(''topic'', JString (parseTopic k)), (''event'', JString ''phx_join''),
                         (''payload'', JObject []), (''ref'', JNull)]
                  \<or> m = [(''topic'', JString (parseTopic k)), (''event'', JString ''phx_leave''),
                          (''payload'', JObject []), (''ref'', JNull)])"
    using IEX_sent_shape [of cli sd ms cli' m] by blast
  ultimately show ?thesis by (intro conjI)
qed

theorem IEX_message_shape_witness:
  "''AAPL'' \<noteq> ''$lobby'' \<and> ''AAPL'' \<noteq> ''$lobby_last_price''
   \<and> makeJoinMessage IEX ''AAPL'' =
     Inr [(''topic'', JString ''iex:securities:AAPL''), (''event'', JString ''phx_join''),
          (''payload'', JObject []), (''ref'', JNull)]
   \<and> makeLeaveMessage IEX ''$lobby'' =
     Inr [(''topic'', JString ''iex:lobby''), (''event'', JString ''phx_leave''),
          (''payload'', JObject []), (''ref'', JNull)]
   \<and> ready (live_client\<lparr>channels := fmupd ''$lobby_last_price'' True fmempty\<rparr>)
   \<and> refreshChannels \<lparr>seed_join = [''$lobby_last_price''], seed_leave = [],
                       seed_copy = [''$lobby_last_price'']\<rparr>
         (live_client\<lparr>channels := fmupd ''$lobby_last_price'' True fmempty\<rparr>)
       = Inr ([[(''topic'', JString ''iex:lobby:last_price''), (''event'', JString ''phx_join''),
                (''payload'', JObject []), (''ref'', JNull)]],
              live_client\<lparr>channels := fmupd ''$lobby_last_price'' True fmempty,
                           joinedChannels := fmupd ''$lobby_last_price'' True fmempty\<rparr>)
   \<and> (\<exists>k. [(''topic'', JString ''iex:lobby:last_price''), (''event'', JString ''phx_join''),
             (''payload'', JObject []), (''ref'', JNull)]
            = [(''topic'', JString (parseTopic k)), (''event'', JString ''phx_join''),
               (''payload'', JObject []), (''ref'', JNull)]
          \<or> [(''topic'', JString ''iex:lobby:last_price''), (''event'', JString ''phx_join''),
              (''payload'', JObject []), (''ref'', JNull)]
            = [(''topic'', JString (parseTopic k)), (''event'', JString ''phx_leave''),
               (''payload'', JObject []), (''ref'', JNull)])"
proof -
  let ?c = "live_client\<lparr>channels := fmupd ''$lobby_last_price'' True fmempty\<rparr>"
  let ?sd = "\<lparr>seed_join = [''$lobby_last_price''], seed_leave = [],
              seed_copy = [''$lobby_last_price'']\<rparr>"
  let ?m = "[(''topic'', JString ''iex:lobby:last_price''), (''event'', JString ''phx_join''),
             (''payload'', JObject []), (''ref'', JNull)]"
  let ?c' = "live_client\<lparr>channels := fmupd ''$lobby_last_price'' True fmempty,
                           joinedChannels := fmupd ''$lobby_last_price'' True fmempty\<rparr>"
  have a: "''AAPL'' \<noteq> ''$lobby'' \<and> ''AAPL'' \<noteq> ''$lobby_last_price''" by simp
  note T = IEX_message_shape [where c = "''AAPL''" and cli = ?c and sd = ?sd and ms = "[?m]"
      and cli' = ?c' and m = ?m]
  from T a have t: "parseTopic ''AAPL'' = ''iex:securities:AAPL''" by simp
  from T t have j: "makeJoinMessage IEX ''AAPL'' =
     Inr [(''topic'', JString ''iex:securities:AAPL''), (''event'', JString ''phx_join''),
          (''payload'', JObject []), (''ref'', JNull)]"
    by simp
  from IEX_message_shape [where c = "''$lobby''"]
  have l: "makeLeaveMessage IEX ''$lobby'' =
     Inr [(''topic'', JString ''iex:lobby''), (''event'', JString ''phx_leave''),
          (''payload'', JObject []), (''ref'', JNull)]"
    by simp
  have r: "ready ?c"
    using live_ready by (simp add: ready_def Connected_def)
  have p: "provider ?c = IEX" by (simp add: live_fields)
  have o1: "range_order [''$lobby_last_price''] (fmupd ''$lobby_last_price'' True fmempty)
              = [''$lobby_last_price'']"
    by (simp add: range_order_def)
  have o2: "range_order [] fmempty = []"
    by (simp add: range_order_def)
  have q: "q live_client = ChanOpen" "ws live_client = Some (Conn 0)"
    by (simp_all add: live_client_def)
  have mj: "makeJoinMessage IEX ''$lobby_last_price'' = Inr ?m"
    by (simp add: makeJoinMessage_IEX parseTopic_def)
  have e: "refreshChannels ?sd ?c = Inr ([?m], ?c')"
    by (simp add: refreshChannels_def live_fields q o1 o2 mj chan_send_def copy_loop_def
          Connected_def)
  have s: "?m \<in> set [?m]" by simp
  from T r p e s
  have x: "\<exists>k. ?m = [(''topic'', JString (parseTopic k)), (''event'', JString ''phx_join''),
               (''payload'', JObject []), (''ref'', JNull)]
          \<or> ?m = [(''topic'', JString (parseTopic k)), (''event'', JString ''phx_leave''),
               (''payload'', JObject []), (''ref'', JNull)]"
    by blast
  from a have a1: "''AAPL'' \<noteq> ''$lobby''" and a2: "''AAPL'' \<noteq> ''$lobby_last_price''"
    by (rule conjunct1, rule conjunct2)
  from a1 a2 j l r e x show ?thesis by (intro conjI)
qed

subsection \<open>Disconnect twice\<close>

text \<open>
  C4. In both revisions \<^verbatim>\<open>Disconnect\<close> on a client that is not connected returns \<^verbatim>\<open>nil\<close>,
  performs no socket operation and changes nothing (\<open>Disconnect_not_connected\<close>,
  \<open>Disconnect_go_not_connected\<close>), and in \<^verbatim>\<open>src/unnamed/part_001\<close> a second call after any
  call that returned does nothing (\<open>Disconnect_twice\<close>). In \<^verbatim>\<open>src/client.go\<close> a second call
  is not always without effect: when \<^verbatim>\<open>cli.ws.Close()\<close> fails, the first call returns the
  error with the socket still stored and the channels \<^verbatim>\<open>breakHartbeat\<close>, \<^verbatim>\<open>breakSender\<close> and
  \<^verbatim>\<open>sending\<close> closed, and the second call panics on \<^verbatim>\<open>close(cli.breakHartbeat)\<close>.
\<close>

theorem Disconnect_go_twice_after_failed_close:
  "Disconnect_go (Some ''broken pipe'') ((New_go ''user'' ''secret'' IEX)\<lparr>ws_go := Some (Conn 0)\<rparr>)
     = Inr (Some ''broken pipe'', [WsClose],
            (New_go ''user'' ''secret'' IEX)
              \<lparr>ws_go := Some (Conn 0), sending := ChanClosed,
                breakHartbeat_go := ChanClosed, breakSender_go := ChanClosed\<rparr>)
   \<and> Disconnect_go None
       ((New_go ''user'' ''secret'' IEX)
          \<lparr>ws_go := Some (Conn 0), sending := ChanClosed,
            breakHartbeat_go := ChanClosed, breakSender_go := ChanClosed\<rparr>)
     = Inl (Panic ''close of closed channel'')"
  by (simp add: Disconnect_go_def connected_def New_go_def chan_close_def)

end
